theory Spec2Isabelle
  imports Main
begin

section \<open>The sushi front end: lexer\<close>

text \<open>
  The program keeps its whole state in file-level statics. The record below holds them,
  together with the streams the code talks to: the bytes still unread on standard
  input, and what it has written to standard output and to standard error.

  The token is an \<open>int\<close> in the source: a negative member of the enum \<open>Token\<close>, or
  the value of a single character (0 to 255) returned as it was read. Doubles are not
  interpreted here: the type of \<open>NumVal\<close> is a parameter \<open>'d\<close>, and the library's
  \<open>strtod\<close> is a parameter of \<open>gettok\<close> and of everything that calls it.
\<close>

abbreviation EOFToken :: int where "EOFToken \<equiv> - 1"
abbreviation DefToken :: int where "DefToken \<equiv> - 2"
abbreviation ExternToken :: int where "ExternToken \<equiv> - 3"
abbreviation IdentifierToken :: int where "IdentifierToken \<equiv> - 4"
abbreviation NumberToken :: int where "NumberToken \<equiv> - 5"

text \<open>The value \<open>getchar\<close> returns at the end of the input.\<close>

abbreviation EOF :: int where "EOF \<equiv> - 1"

record 'd state =
  stdin :: string
  LastChar :: int
  IdentifierStr :: string
  NumVal :: 'd
  CurTok :: int
  BinopPrecedence :: "char \<rightharpoonup> int"
  stdout :: "string list"
  stderr :: "string list"

text \<open>
  The character classes of \<open><ctype.h>\<close> in the C locale, on the \<open>int\<close> that
  \<open>getchar\<close> returns. All of them are false at \<open>EOF\<close>.
\<close>

definition isspace :: "int \<Rightarrow> bool" where
  "isspace c \<longleftrightarrow> c = 32 \<or> (9 \<le> c \<and> c \<le> 13)"

definition isdigit :: "int \<Rightarrow> bool" where
  "isdigit c \<longleftrightarrow> 48 \<le> c \<and> c \<le> 57"

definition isalpha :: "int \<Rightarrow> bool" where
  "isalpha c \<longleftrightarrow> (65 \<le> c \<and> c \<le> 90) \<or> (97 \<le> c \<and> c \<le> 122)"

definition isalnum :: "int \<Rightarrow> bool" where
  "isalnum c \<longleftrightarrow> isalpha c \<or> isdigit c"

definition isascii :: "int \<Rightarrow> bool" where
  "isascii c \<longleftrightarrow> 0 \<le> c \<and> c \<le> 127"

text \<open>
  \<open>getchar\<close>: the next byte of standard input as a value from 0 to 255, or \<open>EOF\<close>
  when nothing is left.
\<close>

definition getchar :: "'d state \<Rightarrow> int \<times> 'd state" where
  "getchar s =
     (case stdin s of
        [] \<Rightarrow> (EOF, s)
      | c # cs \<Rightarrow> (of_char c, s\<lparr>stdin := cs\<rparr>))"

text \<open>The four loops of \<open>gettok\<close>, each a function of the state.\<close>

text \<open>\<open>while (isspace(LastChar)) LastChar = getchar();\<close>\<close>

function gettok_whitespace :: "'d state \<Rightarrow> 'd state" where
  "gettok_whitespace s =
     (if isspace (LastChar s)
      then (let (c, s1) = getchar s in gettok_whitespace (s1\<lparr>LastChar := c\<rparr>))
      else s)"
  by pat_completeness auto
termination
  by (relation "measure (\<lambda>s. 2 * length (stdin s) + (if isspace (LastChar s) then 1 else 0))")
     (auto simp: getchar_def isspace_def split: list.splits)

text \<open>\<open>while (isalnum((LastChar = getchar()))) IdentifierStr += LastChar;\<close>\<close>

function gettok_identifier :: "'d state \<Rightarrow> 'd state" where
  "gettok_identifier s =
     (let (c, s1) = getchar s; s2 = s1\<lparr>LastChar := c\<rparr>
      in if isalnum c
         then gettok_identifier (s2\<lparr>IdentifierStr := IdentifierStr s2 @ [char_of c]\<rparr>)
         else s2)"
  by pat_completeness auto
termination
  by (relation "measure (\<lambda>s. length (stdin s))")
     (auto simp: getchar_def isalnum_def isalpha_def isdigit_def split: list.splits)

text \<open>
  \<open>do { NumStr += LastChar; LastChar = getchar(); }
  while (isdigit(LastChar) || LastChar == '.');\<close>
\<close>

function gettok_number :: "string \<Rightarrow> 'd state \<Rightarrow> string \<times> 'd state" where
  "gettok_number NumStr s =
     (let NumStr1 = NumStr @ [char_of (LastChar s)];
          (c, s1) = getchar s; s2 = s1\<lparr>LastChar := c\<rparr>
      in if isdigit c \<or> c = of_char CHR ''.''
         then gettok_number NumStr1 s2
         else (NumStr1, s2))"
  by pat_completeness auto
termination
  by (relation "measure (\<lambda>(n, s). length (stdin s))")
     (auto simp: getchar_def isdigit_def split: list.splits)

text \<open>
  \<open>do LastChar = getchar();
  while (LastChar != EOF && LastChar != '\n' && LastChar != '\r');\<close>
\<close>

function gettok_comment :: "'d state \<Rightarrow> 'd state" where
  "gettok_comment s =
     (let (c, s1) = getchar s; s2 = s1\<lparr>LastChar := c\<rparr>
      in if c \<noteq> EOF \<and> c \<noteq> 10 \<and> c \<noteq> 13
         then gettok_comment s2
         else s2)"
  by pat_completeness auto
termination
  by (relation "measure (\<lambda>s. length (stdin s))")
     (auto simp: getchar_def split: list.splits)


text \<open>
  The comment loop reads at least one character, and the whitespace loop never gives
  characters back: this is what makes the recursive call of \<open>gettok\<close> after a comment
  terminate.
\<close>

lemma gettok_whitespace_stdin_le:
  "length (stdin (gettok_whitespace s)) \<le> length (stdin s)"
proof (induction s rule: gettok_whitespace.induct)
  case (1 s)
  show ?case
  proof (cases "isspace (LastChar s)")
    case True
    obtain c s1 where g: "getchar s = (c, s1)" by (cases "getchar s")
    have "length (stdin s1) \<le> length (stdin s)"
      using g by (auto simp: getchar_def split: list.splits)
    moreover have "length (stdin (gettok_whitespace (s1\<lparr>LastChar := c\<rparr>))) \<le> length (stdin s1)"
      using "1.IH" [OF True g [symmetric]] by simp
    ultimately show ?thesis
      using True g by (subst gettok_whitespace.simps) simp
  next
    case False
    then show ?thesis by (subst gettok_whitespace.simps) simp
  qed
qed

lemma gettok_comment_stdin_less:
  "LastChar (gettok_comment s) \<noteq> EOF \<Longrightarrow> length (stdin (gettok_comment s)) < length (stdin s)"
proof (induction s rule: gettok_comment.induct)
  case (1 s)
  obtain c s1 where g: "getchar s = (c, s1)" by (cases "getchar s")
  show ?case
  proof (cases "c \<noteq> EOF \<and> c \<noteq> 10 \<and> c \<noteq> 13")
    case True
    have eq: "gettok_comment s = gettok_comment (s1\<lparr>LastChar := c\<rparr>)"
      using True g by (subst gettok_comment.simps) simp
    have "length (stdin s1) < length (stdin s)"
      using g True by (auto simp: getchar_def split: list.splits)
    moreover have "length (stdin (gettok_comment (s1\<lparr>LastChar := c\<rparr>))) < length (stdin s1)"
      using "1.IH" [OF refl g [symmetric] refl True] "1.prems" eq by simp
    ultimately show ?thesis using eq by simp
  next
    case False
    have eq: "gettok_comment s = s1\<lparr>LastChar := c\<rparr>"
      using False g by (subst gettok_comment.simps) auto
    then have "c \<noteq> EOF" using "1.prems" by simp
    then have "length (stdin s1) < length (stdin s)"
      using g by (auto simp: getchar_def split: list.splits)
    then show ?thesis using eq by simp
  qed
qed

text \<open>
  The end of \<open>gettok\<close>, reached when the character starts neither a word nor a
  number, also after a comment that ran into the end of the input:
  \<open>if (LastChar == EOF) return EOFToken;
  int ThisChar = LastChar; LastChar = getchar(); return ThisChar;\<close>
\<close>

definition gettok_char :: "'d state \<Rightarrow> int \<times> 'd state" where
  "gettok_char s =
     (if LastChar s = EOF then (EOFToken, s)
      else (let ThisChar = LastChar s; (c, s1) = getchar s in
            (ThisChar, s1\<lparr>LastChar := c\<rparr>)))"

text \<open>
  \<open>gettok\<close>: the next token. After a comment that ends in a line end the function
  calls itself; after a comment that ends the input, control falls through to the test
  for \<open>EOF\<close> below it.
\<close>

function gettok :: "(string \<Rightarrow> 'd) \<Rightarrow> 'd state \<Rightarrow> int \<times> 'd state" where
  "gettok strtod s0 =
     (let s = gettok_whitespace s0 in
      if isalpha (LastChar s) then
        (let s1 = gettok_identifier (s\<lparr>IdentifierStr := [char_of (LastChar s)]\<rparr>) in
         if IdentifierStr s1 = ''def'' then (DefToken, s1)
         else if IdentifierStr s1 = ''extern'' then (ExternToken, s1)
         else (IdentifierToken, s1))
      else if isdigit (LastChar s) \<or> LastChar s = of_char CHR ''.'' then
        (let (NumStr, s1) = gettok_number [] s in
         (NumberToken, s1\<lparr>NumVal := strtod NumStr\<rparr>))
      else if LastChar s = of_char CHR ''#'' then
        (let s1 = gettok_comment s in
         if LastChar s1 \<noteq> EOF then gettok strtod s1
         else gettok_char s1)
      else gettok_char s)"
  by pat_completeness auto
termination
proof (relation "measure (\<lambda>(f, s). length (stdin s))", goal_cases)
  case 1
  show ?case by simp
next
  case (2 strtod s0 s s1)
  then show ?case
    using gettok_comment_stdin_less [of s] gettok_whitespace_stdin_le [of s0] by simp
qed



section \<open>What the lexer's loops compute\<close>

text \<open>
  The unfolding equations of the loops are taken out of the simplifier's rules (they
  would unfold forever on a state that is not concrete) and each loop is given in closed
  form: it drops a run of characters from the input.
\<close>

declare gettok_whitespace.simps [simp del] gettok_identifier.simps [simp del]
  gettok_number.simps [simp del] gettok_comment.simps [simp del] gettok.simps [simp del]


text \<open>The character \<open>getchar\<close> would return next: the head of the input, or \<open>EOF\<close>.\<close>

definition peek :: "string \<Rightarrow> int" where
  "peek cs = (case cs of [] \<Rightarrow> EOF | c # _ \<Rightarrow> of_char c)"

lemma of_char_range: "0 \<le> (of_char c :: int) \<and> (of_char c :: int) < 256"
proof -
  have "(of_char c :: int) mod 256 = of_char c" by simp
  then show ?thesis
    by (metis pos_mod_bound pos_mod_sign zero_less_numeral)
qed

lemma of_char_not_EOF [simp]: "(of_char c :: int) \<noteq> - 1"
  using of_char_range [of c] by simp

lemma getchar_eq: "getchar s = (peek (stdin s), s\<lparr>stdin := tl (stdin s)\<rparr>)"
  by (cases "stdin s") (simp_all add: getchar_def peek_def)

abbreviation in_comment :: "char \<Rightarrow> bool" where
  "in_comment c \<equiv> of_char c \<noteq> (10::int) \<and> of_char c \<noteq> (13::int)"

lemma gettok_comment_eq:
  "gettok_comment s =
     s\<lparr>stdin := tl (dropWhile in_comment (stdin s)),
       LastChar := peek (dropWhile in_comment (stdin s))\<rparr>"
proof (induction "stdin s" arbitrary: s)
  case Nil
  then show ?case
    by (subst gettok_comment.simps) (simp add: getchar_def peek_def)
next
  case (Cons c cs)
  have st: "stdin s = c # cs" using Cons(2) by simp
  show ?case
  proof (cases "in_comment c")
    case True
    have "gettok_comment s = gettok_comment (s\<lparr>stdin := cs, LastChar := of_char c\<rparr>)"
      using st True by (subst gettok_comment.simps) (simp add: getchar_def)
    also have "\<dots> = s\<lparr>stdin := tl (dropWhile in_comment cs), LastChar := peek (dropWhile in_comment cs)\<rparr>"
      using Cons(1) [of "s\<lparr>stdin := cs, LastChar := of_char c\<rparr>"] by simp
    finally show ?thesis using st True by simp
  next
    case False
    then show ?thesis
      using st by (subst gettok_comment.simps) (auto simp add: getchar_def peek_def)
  qed
qed

abbreviation alnum_char :: "char \<Rightarrow> bool" where
  "alnum_char c \<equiv> isalnum (of_char c)"

lemma gettok_identifier_eq:
  "gettok_identifier s =
     s\<lparr>stdin := tl (dropWhile alnum_char (stdin s)),
       LastChar := peek (dropWhile alnum_char (stdin s)),
       IdentifierStr := IdentifierStr s @ takeWhile alnum_char (stdin s)\<rparr>"
proof (induction "stdin s" arbitrary: s)
  case Nil
  then show ?case
    by (subst gettok_identifier.simps) (simp add: getchar_def peek_def isalnum_def isalpha_def isdigit_def)
next
  case (Cons c cs)
  have st: "stdin s = c # cs" using Cons(2) by simp
  show ?case
  proof (cases "alnum_char c")
    case True
    let ?s1 = "s\<lparr>stdin := cs, LastChar := of_char c, IdentifierStr := IdentifierStr s @ [c]\<rparr>"
    have "gettok_identifier s = gettok_identifier ?s1"
      using st True by (subst gettok_identifier.simps) (simp add: getchar_def)
    also have "\<dots> = s\<lparr>stdin := tl (dropWhile alnum_char cs), LastChar := peek (dropWhile alnum_char cs),
        IdentifierStr := (IdentifierStr s @ [c]) @ takeWhile alnum_char cs\<rparr>"
      using Cons(1) [of ?s1] by simp
    finally show ?thesis using st True by simp
  next
    case False
    then show ?thesis
      using st by (subst gettok_identifier.simps) (auto simp add: getchar_def peek_def)
  qed
qed

abbreviation number_char :: "char \<Rightarrow> bool" where
  "number_char c \<equiv> isdigit (of_char c) \<or> c = CHR ''.''"

lemma of_char_dot: "((of_char c :: int) = 46) = (c = CHR ''.'')"
proof -
  have "(of_char c :: int) = of_char CHR ''.'' \<longleftrightarrow> c = CHR ''.''"
    by (metis char_of_char)
  then show ?thesis by simp
qed

lemma gettok_number_eq:
  "gettok_number NumStr s =
     (NumStr @ char_of (LastChar s) # takeWhile number_char (stdin s),
      s\<lparr>stdin := tl (dropWhile number_char (stdin s)),
        LastChar := peek (dropWhile number_char (stdin s))\<rparr>)"
proof (induction "stdin s" arbitrary: s NumStr)
  case Nil
  then show ?case
    by (subst gettok_number.simps) (simp add: getchar_def peek_def isdigit_def)
next
  case (Cons c cs)
  have st: "stdin s = c # cs" using Cons(2) by simp
  show ?case
  proof (cases "number_char c")
    case True
    let ?s1 = "s\<lparr>stdin := cs, LastChar := of_char c\<rparr>"
    have "gettok_number NumStr s = gettok_number (NumStr @ [char_of (LastChar s)]) ?s1"
      using st True by (subst gettok_number.simps) (auto simp add: getchar_def of_char_dot)
    also have "\<dots> = ((NumStr @ [char_of (LastChar s)]) @ c # takeWhile number_char cs,
       s\<lparr>stdin := tl (dropWhile number_char cs), LastChar := peek (dropWhile number_char cs)\<rparr>)"
      using Cons(1) [of ?s1 "NumStr @ [char_of (LastChar s)]"] by simp
    finally show ?thesis using st True by simp
  next
    case False
    then show ?thesis
      using st by (subst gettok_number.simps) (auto simp add: getchar_def peek_def of_char_dot)
  qed
qed

abbreviation space_char :: "char \<Rightarrow> bool" where
  "space_char c \<equiv> isspace (of_char c)"

lemma gettok_whitespace_eq:
  "gettok_whitespace s =
     (if isspace (LastChar s)
      then s\<lparr>stdin := tl (dropWhile space_char (stdin s)),
             LastChar := peek (dropWhile space_char (stdin s))\<rparr>
      else s)"
proof (induction "stdin s" arbitrary: s)
  case Nil
  have "\<not> isspace EOF" by (simp add: isspace_def)
  then show ?case using Nil
    apply (subst gettok_whitespace.simps)
    apply (simp add: getchar_def peek_def)
    apply (subst gettok_whitespace.simps)
    apply simp
    done
next
  case (Cons c cs)
  have st: "stdin s = c # cs" using Cons(2) by simp
  show ?case
  proof (cases "isspace (LastChar s)")
    case True
    let ?s1 = "s\<lparr>stdin := cs, LastChar := of_char c\<rparr>"
    have "gettok_whitespace s = gettok_whitespace ?s1"
      using st True by (subst gettok_whitespace.simps) (simp add: getchar_def)
    also have "\<dots> = (if space_char c then s\<lparr>stdin := tl (dropWhile space_char cs), LastChar := peek (dropWhile space_char cs)\<rparr> else ?s1)"
      using Cons(1) [of ?s1] by simp
    finally show ?thesis using st True by (simp add: peek_def)
  next
    case False
    then show ?thesis by (subst gettok_whitespace.simps) simp
  qed
qed

text \<open>
  The characters the lexer has not consumed: the input, and the one held in
  \<open>LastChar\<close>. No call of \<open>gettok\<close> makes them more, and a call that returns a
  token other than \<open>EOFToken\<close> makes them fewer.
\<close>

definition unread :: "'d state \<Rightarrow> nat" where
  "unread s = length (stdin s) + (if LastChar s = EOF then 0 else 1)"

lemma peek_EOF_iff [simp]: "peek xs = - 1 \<longleftrightarrow> xs = []"
  by (cases xs) (simp_all add: peek_def)

lemma length_tl_peek [simp]: "length (tl xs) + (if xs = [] then 0 else 1) = length xs"
  by (cases xs) simp_all

lemma unread_tl_peek:
  "stdin s = tl xs \<Longrightarrow> LastChar s = peek xs \<Longrightarrow> unread s = length xs"
  by (simp add: unread_def)

lemma not_isspace_EOF [simp]: "\<not> isspace (- 1)" by (simp add: isspace_def)
lemma not_isalpha_EOF [simp]: "\<not> isalpha (- 1)" by (simp add: isalpha_def)
lemma not_isdigit_EOF [simp]: "\<not> isdigit (- 1)" by (simp add: isdigit_def)

lemma unread_whitespace: "unread (gettok_whitespace s) \<le> unread s"
proof (cases "isspace (LastChar s)")
  case True
  then have "LastChar s \<noteq> - 1" by auto
  moreover have "length (dropWhile space_char (stdin s)) \<le> length (stdin s)"
    by (rule length_dropWhile_le)
  ultimately show ?thesis
    using True by (simp add: gettok_whitespace_eq unread_tl_peek) (simp add: unread_def)
next
  case False
  then show ?thesis by (simp add: gettok_whitespace_eq)
qed

lemma unread_char:
  "unread (snd (gettok_char s)) \<le> unread s"
  "fst (gettok_char s) \<noteq> EOFToken \<Longrightarrow> unread (snd (gettok_char s)) < unread s"
  by (auto simp add: gettok_char_def getchar_eq Let_def unread_tl_peek) (simp_all add: unread_def)

lemma unread_gettok:
  "unread (snd (gettok strtod s0)) \<le> unread s0 \<and>
   (fst (gettok strtod s0) \<noteq> EOFToken \<longrightarrow> unread (snd (gettok strtod s0)) < unread s0)"
proof (induction strtod s0 rule: gettok.induct)
  case (1 strtod s0)
  define s where "s = gettok_whitespace s0"
  have ws: "unread s \<le> unread s0" unfolding s_def by (rule unread_whitespace)
  consider (ident) "isalpha (LastChar s)"
    | (num) "\<not> isalpha (LastChar s)" "isdigit (LastChar s) \<or> LastChar s = of_char CHR ''.''"
    | (comment) "\<not> isalpha (LastChar s)" "\<not> (isdigit (LastChar s) \<or> LastChar s = of_char CHR ''.'')"
        "LastChar s = of_char CHR ''#''"
    | (other) "\<not> isalpha (LastChar s)" "\<not> (isdigit (LastChar s) \<or> LastChar s = of_char CHR ''.'')"
        "LastChar s \<noteq> of_char CHR ''#''"
    by blast
  then show ?case
  proof cases
    case ident
    then have ne: "LastChar s \<noteq> - 1" by auto
    have "length (dropWhile alnum_char (stdin s)) \<le> length (stdin s)"
      by (rule length_dropWhile_le)
    then have "length (dropWhile alnum_char (stdin s)) < unread s0"
      using ne ws by (simp add: unread_def)
    moreover have "snd (gettok strtod s0) = gettok_identifier (s\<lparr>IdentifierStr := [char_of (LastChar s)]\<rparr>)"
      using ident by (subst gettok.simps) (simp add: s_def [symmetric] Let_def)
    ultimately show ?thesis
      by (simp add: gettok_identifier_eq unread_tl_peek)
  next
    case num
    then have ne: "LastChar s \<noteq> - 1" by auto
    have "length (dropWhile number_char (stdin s)) \<le> length (stdin s)"
      by (rule length_dropWhile_le)
    then have "length (dropWhile number_char (stdin s)) < unread s0"
      using ne ws by (simp add: unread_def)
    moreover have "snd (gettok strtod s0) =
        (snd (gettok_number [] s))\<lparr>NumVal := strtod (fst (gettok_number [] s))\<rparr>"
      using num by (subst gettok.simps) (simp add: s_def [symmetric] Let_def split_def)
    ultimately show ?thesis
      by (simp add: gettok_number_eq unread_tl_peek)
  next
    case comment
    define s1 where "s1 = gettok_comment s"
    have "length (dropWhile in_comment (stdin s)) \<le> length (stdin s)"
      by (rule length_dropWhile_le)
    then have lt: "unread s1 < unread s0"
      using comment ws by (simp add: s1_def gettok_comment_eq unread_tl_peek) (simp add: unread_def)
    show ?thesis
    proof (cases "LastChar s1 \<noteq> EOF")
      case True
      have eq: "gettok strtod s0 = gettok strtod s1"
        using comment True by (subst gettok.simps) (simp add: s_def [symmetric] s1_def [symmetric] Let_def)
      have "unread (snd (gettok strtod s1)) \<le> unread s1"
        using "1.IH" [OF s_def comment(1) comment(2) comment(3) s1_def True] by simp
      then show ?thesis using lt eq by simp
    next
      case False
      have eq: "gettok strtod s0 = gettok_char s1"
        using comment False by (subst gettok.simps) (simp add: s_def [symmetric] s1_def [symmetric] Let_def)
      show ?thesis using unread_char [of s1] lt eq by auto
    qed
  next
    case other
    have eq: "gettok strtod s0 = gettok_char s"
      using other by (subst gettok.simps) (simp add: s_def [symmetric] Let_def)
    show ?thesis using unread_char [of s] ws eq by auto
  qed
qed

section \<open>The AST, the current token and the precedence table\<close>

datatype 'd ExprAST =
    NumberExprAST 'd
  | VariableExprAST string
  | BinaryExprAST char "'d ExprAST" "'d ExprAST"
  | CallExprAST string "'d ExprAST list"

datatype PrototypeAST = PrototypeAST string "string list"

datatype 'd FunctionAST = FunctionAST PrototypeAST "'d ExprAST"

text \<open>\<open>getNextToken\<close>: \<open>return CurTok = gettok();\<close>\<close>

definition getNextToken :: "(string \<Rightarrow> 'd) \<Rightarrow> 'd state \<Rightarrow> int \<times> 'd state" where
  "getNextToken strtod s = (let (t, s1) = gettok strtod s in (t, s1\<lparr>CurTok := t\<rparr>))"

text \<open>
  \<open>GetTokPrecedence\<close>. The table is a \<open>std::map<char, int>\<close> read with
  \<open>operator[]\<close>, which stores the value 0 under a key that is absent before it returns
  it: the function returns the table as well.
\<close>

definition GetTokPrecedence :: "'d state \<Rightarrow> int \<times> 'd state" where
  "GetTokPrecedence s =
     (if \<not> isascii (CurTok s) then (- 1, s)
      else
        (let k = char_of (CurTok s);
             (TokPrec, s1) =
               (case BinopPrecedence s k of
                  None \<Rightarrow> (0, s\<lparr>BinopPrecedence := (BinopPrecedence s)(k \<mapsto> 0)\<rparr>)
                | Some p \<Rightarrow> (p, s))
         in if TokPrec \<le> 0 then (- 1, s1) else (TokPrec, s1)))"

text \<open>
  \<open>LogError\<close> and \<open>LogErrorP\<close> write one line to standard error and return the null
  pointer, here \<open>None\<close>.
\<close>

definition LogError :: "string \<Rightarrow> 'd state \<Rightarrow> 'd ExprAST option \<times> 'd state" where
  "LogError Str s = (None, s\<lparr>stderr := stderr s @ [''Error: '' @ Str @ ''\<newline>'']\<rparr>)"

definition LogErrorP :: "string \<Rightarrow> 'd state \<Rightarrow> PrototypeAST option \<times> 'd state" where
  "LogErrorP Str s = (None, snd (LogError Str s))"

section \<open>The parser\<close>

definition ParseNumberExpr :: "(string \<Rightarrow> 'd) \<Rightarrow> 'd state \<Rightarrow> 'd ExprAST option \<times> 'd state" where
  "ParseNumberExpr strtod s =
     (let Result = NumberExprAST (NumVal s) in
      (Some Result, snd (getNextToken strtod s)))"

text \<open>
  The expression parser is a family of functions that call each other, on a state
  that each call replaces. They are defined by recursion on a bound on the depth of the
  calls: \<open>None\<close> says that the bound was reached, \<open>Some (None, s)\<close> that the parse
  failed (the null pointer) and left the state \<open>s\<close>, \<open>Some (Some e, s)\<close> that it
  built \<open>e\<close>. Each iteration of a loop counts as a call.
\<close>

fun ParseParenExpr ::
    "(string \<Rightarrow> 'd) \<Rightarrow> nat \<Rightarrow> 'd state \<Rightarrow> ('d ExprAST option \<times> 'd state) option"
  and ParseIdentifierExpr ::
    "(string \<Rightarrow> 'd) \<Rightarrow> nat \<Rightarrow> 'd state \<Rightarrow> ('d ExprAST option \<times> 'd state) option"
  and ParseIdentifierExpr_args ::
    "(string \<Rightarrow> 'd) \<Rightarrow> nat \<Rightarrow> 'd ExprAST list \<Rightarrow> 'd state
       \<Rightarrow> ('d ExprAST list option \<times> 'd state) option"
  and ParsePrimary ::
    "(string \<Rightarrow> 'd) \<Rightarrow> nat \<Rightarrow> 'd state \<Rightarrow> ('d ExprAST option \<times> 'd state) option"
  and ParseBinOpRHS ::
    "(string \<Rightarrow> 'd) \<Rightarrow> nat \<Rightarrow> int \<Rightarrow> 'd ExprAST \<Rightarrow> 'd state
       \<Rightarrow> ('d ExprAST option \<times> 'd state) option"
  and ParseExpression ::
    "(string \<Rightarrow> 'd) \<Rightarrow> nat \<Rightarrow> 'd state \<Rightarrow> ('d ExprAST option \<times> 'd state) option"
where
  "ParseParenExpr strtod 0 s = None"
| "ParseParenExpr strtod (Suc n) s =
     (let s1 = snd (getNextToken strtod s) in
      case ParseExpression strtod n s1 of
        None \<Rightarrow> None
      | Some (None, s2) \<Rightarrow> Some (None, s2)
      | Some (Some V, s2) \<Rightarrow>
          if CurTok s2 \<noteq> of_char CHR '')''
          then Some (LogError (''expected ')'' @ [CHR 0x27]) s2)
          else Some (Some V, snd (getNextToken strtod s2)))"
| "ParseIdentifierExpr strtod 0 s = None"
| "ParseIdentifierExpr strtod (Suc n) s =
     (let IdName = IdentifierStr s;
          s1 = snd (getNextToken strtod s)
      in if CurTok s1 \<noteq> of_char CHR ''(''
         then Some (Some (VariableExprAST IdName), s1)
         else
           (let s2 = snd (getNextToken strtod s1) in
            if CurTok s2 \<noteq> of_char CHR '')''
            then
              (case ParseIdentifierExpr_args strtod n [] s2 of
                 None \<Rightarrow> None
               | Some (None, s3) \<Rightarrow> Some (None, s3)
               | Some (Some Args, s3) \<Rightarrow>
                   Some (Some (CallExprAST IdName Args), snd (getNextToken strtod s3)))
            else Some (Some (CallExprAST IdName []), snd (getNextToken strtod s2))))"
| "ParseIdentifierExpr_args strtod 0 Args s = None"
| "ParseIdentifierExpr_args strtod (Suc n) Args s =
     (case ParseExpression strtod n s of
        None \<Rightarrow> None
      | Some (None, s1) \<Rightarrow> Some (None, s1)
      | Some (Some Arg, s1) \<Rightarrow>
          (let Args1 = Args @ [Arg] in
           if CurTok s1 = of_char CHR '')'' then Some (Some Args1, s1)
           else if CurTok s1 \<noteq> of_char CHR '',''
           then Some (None, snd (LogError (''Expected ')' or ',' in argument list'') s1))
           else ParseIdentifierExpr_args strtod n Args1 (snd (getNextToken strtod s1))))"
| "ParsePrimary strtod 0 s = None"
| "ParsePrimary strtod (Suc n) s =
     (if CurTok s = IdentifierToken then ParseIdentifierExpr strtod n s
      else if CurTok s = NumberToken then Some (ParseNumberExpr strtod s)
      else if CurTok s = of_char CHR ''('' then ParseParenExpr strtod n s
      else Some (LogError ''unknown token when expecting an expression'' s))"
| "ParseBinOpRHS strtod 0 ExprPrec LHS s = None"
| "ParseBinOpRHS strtod (Suc n) ExprPrec LHS s =
     (let (TokPrec, s1) = GetTokPrecedence s in
      if TokPrec < ExprPrec then Some (Some LHS, s1)
      else
        (let BinOp = CurTok s1;
             s2 = snd (getNextToken strtod s1)
         in case ParsePrimary strtod n s2 of
              None \<Rightarrow> None
            | Some (None, s3) \<Rightarrow> Some (None, s3)
            | Some (Some RHS, s3) \<Rightarrow>
                (let (NextPrec, s4) = GetTokPrecedence s3 in
                 if TokPrec < NextPrec
                 then
                   (case ParseBinOpRHS strtod n (TokPrec + 1) RHS s4 of
                      None \<Rightarrow> None
                    | Some (None, s5) \<Rightarrow> Some (None, s5)
                    | Some (Some RHS1, s5) \<Rightarrow>
                        ParseBinOpRHS strtod n ExprPrec
                          (BinaryExprAST (char_of BinOp) LHS RHS1) s5)
                 else
                   ParseBinOpRHS strtod n ExprPrec
                     (BinaryExprAST (char_of BinOp) LHS RHS) s4)))"
| "ParseExpression strtod 0 s = None"
| "ParseExpression strtod (Suc n) s =
     (case ParsePrimary strtod n s of
        None \<Rightarrow> None
      | Some (None, s1) \<Rightarrow> Some (None, s1)
      | Some (Some LHS, s1) \<Rightarrow> ParseBinOpRHS strtod n 0 LHS s1)"


text \<open>
  The loop of \<open>ParsePrototype\<close>:
  \<open>while (getNextToken() == IdentifierToken) ArgNames.push_back(IdentifierStr);\<close>
  Every identifier token costs the lexer at least one character, so the loop ends.
\<close>

lemma getNextToken_eq:
  "getNextToken strtod s =
     (fst (gettok strtod s), (snd (gettok strtod s))\<lparr>CurTok := fst (gettok strtod s)\<rparr>)"
  by (simp add: getNextToken_def split_def Let_def)

lemma unread_CurTok [simp]: "unread (s\<lparr>CurTok := t\<rparr>) = unread s"
  by (simp add: unread_def)

lemma unread_getNextToken:
  "unread (snd (getNextToken strtod s)) \<le> unread s"
  "fst (getNextToken strtod s) \<noteq> EOFToken \<Longrightarrow> unread (snd (getNextToken strtod s)) < unread s"
  using unread_gettok [of strtod s] by (simp_all add: getNextToken_eq)

function ParsePrototype_args ::
    "(string \<Rightarrow> 'd) \<Rightarrow> string list \<Rightarrow> 'd state \<Rightarrow> string list \<times> 'd state" where
  "ParsePrototype_args strtod ArgNames s =
     (let (t, s1) = getNextToken strtod s in
      if t = IdentifierToken
      then ParsePrototype_args strtod (ArgNames @ [IdentifierStr s1]) s1
      else (ArgNames, s1))"
  by pat_completeness auto
termination
proof (relation "measure (\<lambda>(f, a, s). unread s)", goal_cases)
  case 1
  show ?case by simp
next
  case (2 strtod ArgNames s x t s1)
  then have "fst (getNextToken strtod s) = IdentifierToken" "snd (getNextToken strtod s) = s1"
    by (metis fst_conv, metis snd_conv)
  then show ?case
    using unread_getNextToken(2) [of strtod s] by simp
qed

declare ParsePrototype_args.simps [simp del]

definition ParsePrototype ::
    "(string \<Rightarrow> 'd) \<Rightarrow> 'd state \<Rightarrow> PrototypeAST option \<times> 'd state" where
  "ParsePrototype strtod s =
     (if CurTok s \<noteq> IdentifierToken
      then LogErrorP ''Expected function name in prototype'' s
      else
        (let FnName = IdentifierStr s;
             s1 = snd (getNextToken strtod s)
         in if CurTok s1 \<noteq> of_char CHR ''(''
            then LogErrorP ''Expected '(' in prototype'' s1
            else
              (let (ArgNames, s2) = ParsePrototype_args strtod [] s1 in
               if CurTok s2 \<noteq> of_char CHR '')''
               then LogErrorP ''Expected ')' in prototype'' s2
               else (Some (PrototypeAST FnName ArgNames), snd (getNextToken strtod s2)))))"

definition ParseDefinition ::
    "(string \<Rightarrow> 'd) \<Rightarrow> nat \<Rightarrow> 'd state \<Rightarrow> ('d FunctionAST option \<times> 'd state) option" where
  "ParseDefinition strtod n s =
     (let s1 = snd (getNextToken strtod s) in
      case ParsePrototype strtod s1 of
        (None, s2) \<Rightarrow> Some (None, s2)
      | (Some Proto, s2) \<Rightarrow>
          (case ParseExpression strtod n s2 of
             None \<Rightarrow> None
           | Some (Some E, s3) \<Rightarrow> Some (Some (FunctionAST Proto E), s3)
           | Some (None, s3) \<Rightarrow> Some (None, s3)))"

definition ParseTopLevelExpr ::
    "(string \<Rightarrow> 'd) \<Rightarrow> nat \<Rightarrow> 'd state \<Rightarrow> ('d FunctionAST option \<times> 'd state) option" where
  "ParseTopLevelExpr strtod n s =
     (case ParseExpression strtod n s of
        None \<Rightarrow> None
      | Some (Some E, s1) \<Rightarrow>
          (let Proto = PrototypeAST ''__anon_expr'' [] in
           Some (Some (FunctionAST Proto E), s1))
      | Some (None, s1) \<Rightarrow> Some (None, s1))"

definition ParseExtern ::
    "(string \<Rightarrow> 'd) \<Rightarrow> 'd state \<Rightarrow> PrototypeAST option \<times> 'd state" where
  "ParseExtern strtod s = ParsePrototype strtod (snd (getNextToken strtod s))"

text \<open>\<open>fprintf(stderr, ...)\<close> with a constant text.\<close>

definition fprintf_stderr :: "string \<Rightarrow> 'd state \<Rightarrow> 'd state" where
  "fprintf_stderr Str s = s\<lparr>stderr := stderr s @ [Str]\<rparr>"




section \<open>The driver\<close>

text \<open>\<open>std::cout << "> ";\<close>\<close>

definition prompt :: "'d state \<Rightarrow> 'd state" where
  "prompt s = s\<lparr>stdout := stdout s @ [''> '']\<rparr>"


text \<open>
  The statics as the program starts: \<open>LastChar\<close> is a space, the others are zero or
  empty (\<open>zero\<close> stands for the double 0.0). \<open>main\<close> fills the table, prints a prompt
  and reads the first token (\<open>main_start\<close> is the state this leaves) before the loop.
\<close>

definition statics :: "'d \<Rightarrow> string \<Rightarrow> 'd state" where
  "statics zero inp =
     \<lparr>stdin = inp, LastChar = of_char CHR '' '', IdentifierStr = [], NumVal = zero,
      CurTok = 0, BinopPrecedence = Map.empty, stdout = [], stderr = []\<rparr>"

definition main_table :: "'d state \<Rightarrow> 'd state" where
  "main_table s =
     (let s1 = s\<lparr>BinopPrecedence := (BinopPrecedence s)(CHR ''<'' \<mapsto> 10)\<rparr>;
          s2 = s1\<lparr>BinopPrecedence := (BinopPrecedence s1)(CHR ''+'' \<mapsto> 20)\<rparr>;
          s3 = s2\<lparr>BinopPrecedence := (BinopPrecedence s2)(CHR ''-'' \<mapsto> 20)\<rparr>
      in s3\<lparr>BinopPrecedence := (BinopPrecedence s3)(CHR ''*'' \<mapsto> 40)\<rparr>)"

definition main_start :: "(string \<Rightarrow> 'd) \<Rightarrow> 'd \<Rightarrow> string \<Rightarrow> 'd state" where
  "main_start strtod zero inp =
     (let s = main_table (statics zero inp);
          s1 = prompt s
      in snd (getNextToken strtod s1))"



section \<open>Lexing a word and a number\<close>

lemma dropWhile_stop: "rest = [] \<or> \<not> P (hd rest) \<Longrightarrow> dropWhile P rest = rest"
  by (cases rest) auto

lemma takeWhile_stop: "rest = [] \<or> \<not> P (hd rest) \<Longrightarrow> takeWhile P rest = []"
  by (cases rest) auto

lemma isalpha_not_isspace: "isalpha c \<Longrightarrow> \<not> isspace c"
  by (auto simp: isalpha_def isspace_def)

text \<open>
  The text the lexer has not consumed is the character in \<open>LastChar\<close> followed by the
  input. Skipping white space in front of a character that is not white space.
\<close>

lemma gettok_whitespace_text:
  assumes "LastChar s = of_char l" and "l # stdin s = ws @ c # rest"
    and "\<forall>x\<in>set ws. isspace (of_char x)" and "\<not> isspace (of_char c)"
  shows "gettok_whitespace s = s\<lparr>stdin := rest, LastChar := of_char c\<rparr>"
proof (cases ws)
  case Nil
  then have "l = c" "stdin s = rest" using assms(2) by simp_all
  then show ?thesis using assms(1,4) by (simp add: gettok_whitespace_eq)
next
  case (Cons w ws')
  then have l: "l = w" and st: "stdin s = ws' @ c # rest" using assms(2) by simp_all
  have sp: "isspace (LastChar s)" using assms(1,3) Cons l by simp
  have all: "\<And>x. x \<in> set ws' \<Longrightarrow> space_char x" using assms(3) Cons by simp
  have "dropWhile space_char (stdin s) = c # rest"
    using all assms(4) by (simp add: st)
  then show ?thesis using sp by (simp add: gettok_whitespace_eq peek_def)
qed

theorem gettok_identifier_text:
  assumes "LastChar s = of_char l" and "l # stdin s = ws @ c # cs @ rest"
    and "\<forall>x\<in>set ws. isspace (of_char x)"
    and "isalpha (of_char c)" and "\<forall>x\<in>set cs. isalnum (of_char x)"
    and "rest = [] \<or> \<not> isalnum (of_char (hd rest))"
  shows "gettok strtod s =
     (if c # cs = ''def'' then DefToken
      else if c # cs = ''extern'' then ExternToken
      else IdentifierToken,
      s\<lparr>stdin := tl rest, LastChar := peek rest, IdentifierStr := c # cs\<rparr>)"
proof -
  have ws: "gettok_whitespace s = s\<lparr>stdin := cs @ rest, LastChar := of_char c\<rparr>"
    using gettok_whitespace_text [OF assms(1) _ assms(3), of c "cs @ rest"]
      assms(2,4) isalpha_not_isspace by auto
  have all: "\<And>x. x \<in> set cs \<Longrightarrow> alnum_char x" using assms(5) by simp
  have d: "dropWhile alnum_char (cs @ rest) = rest"
    using all dropWhile_stop [of rest alnum_char] assms(6) by simp
  have t: "takeWhile alnum_char (cs @ rest) = cs"
    using all takeWhile_stop [of rest alnum_char] assms(6) by (simp add: takeWhile_append2)
  show ?thesis
    using assms(4) by (subst gettok.simps) (simp add: ws gettok_identifier_eq d t Let_def)
qed


lemma number_char_not_isalpha: "number_char c \<Longrightarrow> \<not> isalpha (of_char c)"
  by (auto simp: isalpha_def isdigit_def)

lemma number_char_not_isspace: "number_char c \<Longrightarrow> \<not> isspace (of_char c)"
  by (auto simp: isspace_def isdigit_def)

lemma gettok_number_text:
  assumes "LastChar s = of_char l" and "l # stdin s = ws @ c # cs @ rest"
    and "\<forall>x\<in>set ws. isspace (of_char x)"
    and "number_char c" and "\<forall>x\<in>set cs. number_char x"
    and "rest = [] \<or> \<not> number_char (hd rest)"
  shows "gettok strtod s =
     (NumberToken, s\<lparr>stdin := tl rest, LastChar := peek rest, NumVal := strtod (c # cs)\<rparr>)"
proof -
  have ws: "gettok_whitespace s = s\<lparr>stdin := cs @ rest, LastChar := of_char c\<rparr>"
    using gettok_whitespace_text [OF assms(1) _ assms(3), of c "cs @ rest"]
      assms(2,4) number_char_not_isspace by auto
  have all: "\<And>x. x \<in> set cs \<Longrightarrow> number_char x" using assms(5) by simp
  have d: "dropWhile number_char (cs @ rest) = rest"
    using all dropWhile_stop [of rest number_char] assms(6) by simp
  have t: "takeWhile number_char (cs @ rest) = cs"
    using all takeWhile_stop [of rest number_char] assms(6) by (simp add: takeWhile_append2)
  have na: "\<not> isalpha (of_char c)" using assms(4) by (rule number_char_not_isalpha)
  have nc: "isdigit (of_char c) \<or> (of_char c :: int) = 46"
    using assms(4) by (simp add: of_char_dot)
  show ?thesis
    using na nc by (subst gettok.simps) (simp add: ws gettok_number_eq d t Let_def)
qed


lemma gettok_comment_text:
  assumes "LastChar s = of_char l" and "l # stdin s = ws @ CHR ''#'' # body @ rest"
    and "\<forall>x\<in>set ws. isspace (of_char x)"
    and "\<forall>x\<in>set body. of_char x \<noteq> (10::int) \<and> of_char x \<noteq> (13::int)"
    and "rest = [] \<or> of_char (hd rest) = (10::int) \<or> of_char (hd rest) = (13::int)"
  shows "gettok strtod s =
     (if rest = [] then (EOFToken, s\<lparr>stdin := [], LastChar := EOF\<rparr>)
      else gettok strtod (s\<lparr>stdin := tl rest, LastChar := of_char (hd rest)\<rparr>))"
proof -
  have ws: "gettok_whitespace s = s\<lparr>stdin := body @ rest, LastChar := of_char CHR ''#''\<rparr>"
    using gettok_whitespace_text [OF assms(1) _ assms(3), of "CHR ''#''" "body @ rest"] assms(2)
    by (simp add: isspace_def)
  have all: "\<And>x. x \<in> set body \<Longrightarrow> in_comment x" using assms(4) by simp
  have d: "dropWhile in_comment (body @ rest) = rest"
    using all dropWhile_stop [of rest in_comment] assms(5) by auto
  show ?thesis
    by (subst gettok.simps)
       (auto simp add: ws gettok_comment_eq d Let_def isalpha_def isdigit_def gettok_char_def peek_def
          split: list.splits)
qed


text \<open>
  \<open>gettok\<close> returns \<open>IdentifierToken\<close> only from the branch that scans a word, as
  long as \<open>LastChar\<close> holds what \<open>getchar\<close> can return (a byte or \<open>EOF\<close>); it
  then leaves a word that starts with a letter in \<open>IdentifierStr\<close>.
\<close>

lemma peek_ge: "- 1 \<le> peek xs"
  using of_char_range by (cases xs) (auto simp: peek_def intro: order_trans [of _ 0])

lemma LastChar_whitespace_ge: "- 1 \<le> LastChar s \<Longrightarrow> - 1 \<le> LastChar (gettok_whitespace s)"
  by (simp add: gettok_whitespace_eq peek_ge)

lemma gettok_char_token:
  "- 1 \<le> LastChar s \<Longrightarrow> - 1 \<le> fst (gettok_char s) \<and> - 1 \<le> LastChar (snd (gettok_char s))"
  by (simp add: gettok_char_def getchar_eq Let_def peek_ge)

lemma isalpha_char_of: "isalpha x \<Longrightarrow> of_char (char_of x) = x"
proof -
  assume "isalpha x"
  then have "0 \<le> x" "x < 256" by (auto simp: isalpha_def)
  then show ?thesis by simp
qed

lemma gettok_IdentifierToken:
  "- 1 \<le> LastChar s0 \<Longrightarrow>
   - 1 \<le> LastChar (snd (gettok strtod s0)) \<and>
   (fst (gettok strtod s0) = IdentifierToken \<longrightarrow>
     (\<exists>c cs. IdentifierStr (snd (gettok strtod s0)) = c # cs \<and> isalpha (of_char c) \<and>
        (\<forall>x\<in>set cs. isalnum (of_char x))))"
proof (induction strtod s0 rule: gettok.induct)
  case (1 strtod s0)
  define s where "s = gettok_whitespace s0"
  have ge: "- 1 \<le> LastChar s" unfolding s_def using "1.prems" by (rule LastChar_whitespace_ge)
  consider (ident) "isalpha (LastChar s)"
    | (num) "\<not> isalpha (LastChar s)" "isdigit (LastChar s) \<or> LastChar s = of_char CHR ''.''"
    | (comment) "\<not> isalpha (LastChar s)" "\<not> (isdigit (LastChar s) \<or> LastChar s = of_char CHR ''.'')"
        "LastChar s = of_char CHR ''#''"
    | (other) "\<not> isalpha (LastChar s)" "\<not> (isdigit (LastChar s) \<or> LastChar s = of_char CHR ''.'')"
        "LastChar s \<noteq> of_char CHR ''#''"
    by blast
  then show ?case
  proof cases
    case ident
    have "snd (gettok strtod s0) = gettok_identifier (s\<lparr>IdentifierStr := [char_of (LastChar s)]\<rparr>)"
      using ident by (subst gettok.simps) (simp add: s_def [symmetric] Let_def)
    then have "IdentifierStr (snd (gettok strtod s0)) =
        char_of (LastChar s) # takeWhile alnum_char (stdin s)"
      and "LastChar (snd (gettok strtod s0)) = peek (dropWhile alnum_char (stdin s))"
      by (simp_all add: gettok_identifier_eq)
    moreover have "\<forall>x\<in>set (takeWhile alnum_char (stdin s)). alnum_char x"
      by (auto dest: set_takeWhileD)
    ultimately show ?thesis
      using ident isalpha_char_of [of "LastChar s"] peek_ge by auto
  next
    case num
    have "gettok strtod s0 = (NumberToken,
        (snd (gettok_number [] s))\<lparr>NumVal := strtod (fst (gettok_number [] s))\<rparr>)"
      using num by (subst gettok.simps) (simp add: s_def [symmetric] Let_def split_def)
    then show ?thesis by (simp add: gettok_number_eq peek_ge)
  next
    case comment
    define s1 where "s1 = gettok_comment s"
    have ge1: "- 1 \<le> LastChar s1" by (simp add: s1_def gettok_comment_eq peek_ge)
    show ?thesis
    proof (cases "LastChar s1 \<noteq> EOF")
      case True
      have eq: "gettok strtod s0 = gettok strtod s1"
        using comment True by (subst gettok.simps) (simp add: s_def [symmetric] s1_def [symmetric] Let_def)
      show ?thesis
        using "1.IH" [OF s_def comment(1) comment(2) comment(3) s1_def True ge1] eq by simp
    next
      case False
      have eq: "gettok strtod s0 = gettok_char s1"
        using comment False by (subst gettok.simps) (simp add: s_def [symmetric] s1_def [symmetric] Let_def)
      show ?thesis using False eq by (simp add: gettok_char_def)
    qed
  next
    case other
    have eq: "gettok strtod s0 = gettok_char s"
      using other by (subst gettok.simps) (simp add: s_def [symmetric] Let_def)
    show ?thesis using gettok_char_token [OF ge] eq by auto
  qed
qed

section \<open>What the parser does to the state\<close>

text \<open>
  The parser changes the state in three ways only: it reads the next token, it looks a
  precedence up (which may add an entry to the table), and it logs an error. \<open>acts\<close>
  relates a state to those reached from it by any number of these steps, and every
  function of the expression parser stays within it.
\<close>

inductive acts :: "(string \<Rightarrow> 'd) \<Rightarrow> 'd state \<Rightarrow> 'd state \<Rightarrow> bool"
  for strtod :: "string \<Rightarrow> 'd" where
    acts_none: "acts strtod s s"
  | acts_token: "acts strtod s s1 \<Longrightarrow> acts strtod s (snd (getNextToken strtod s1))"
  | acts_prec: "acts strtod s s1 \<Longrightarrow> acts strtod s (snd (GetTokPrecedence s1))"
  | acts_error: "acts strtod s s1 \<Longrightarrow> acts strtod s (snd (LogError Str s1))"

lemma acts_pairs:
  "acts strtod s0 s \<Longrightarrow> GetTokPrecedence s = (p, s') \<Longrightarrow> acts strtod s0 s'"
  "acts strtod s0 s \<Longrightarrow> ParseNumberExpr strtod s = (r, s') \<Longrightarrow> acts strtod s0 s'"
  using acts_prec [of strtod s0 s] acts_token [of strtod s0 s]
  by (auto simp: ParseNumberExpr_def Let_def)

lemma LogError_pair_iff [simp]:
  "LogError Str s = (r, s') \<longleftrightarrow> r = None \<and> s' = snd (LogError Str s)"
  by (auto simp: LogError_def)

lemmas acts_step = acts_token acts_prec acts_error acts_pairs

lemma acts_ParseParenExpr:
  assumes expr: "\<forall>s0 s r s'. acts strtod s0 s \<longrightarrow> ParseExpression strtod n s = Some (r, s') \<longrightarrow> acts strtod s0 s'"
    and "acts strtod s0 s" and "ParseParenExpr strtod (Suc n) s = Some (r, s')"
  shows "acts strtod s0 s'"
  using assms(2-)
  by (auto simp: Let_def split: option.splits prod.splits if_splits
        intro!: acts_error acts_token acts_prec)
     (metis acts_step expr [rule_format])+

lemma acts_ParseIdentifierExpr:
  assumes args: "\<forall>s0 s a r s'. acts strtod s0 s \<longrightarrow> ParseIdentifierExpr_args strtod n a s = Some (r, s') \<longrightarrow> acts strtod s0 s'"
    and "acts strtod s0 s" and "ParseIdentifierExpr strtod (Suc n) s = Some (r, s')"
  shows "acts strtod s0 s'"
  using assms(2-)
  by (auto simp: Let_def split: option.splits prod.splits if_splits
        intro!: acts_error acts_token acts_prec)
     (metis acts_step args [rule_format])+

lemma acts_ParseIdentifierExpr_args:
  assumes args: "\<forall>s0 s a r s'. acts strtod s0 s \<longrightarrow> ParseIdentifierExpr_args strtod n a s = Some (r, s') \<longrightarrow> acts strtod s0 s'"
    and expr: "\<forall>s0 s r s'. acts strtod s0 s \<longrightarrow> ParseExpression strtod n s = Some (r, s') \<longrightarrow> acts strtod s0 s'"
    and "acts strtod s0 s" and "ParseIdentifierExpr_args strtod (Suc n) a s = Some (r, s')"
  shows "acts strtod s0 s'"
  using assms(3-)
  by (auto simp: Let_def split: option.splits prod.splits if_splits
        intro!: acts_error acts_token acts_prec)
     (metis acts_step args [rule_format] expr [rule_format])+

lemma acts_ParsePrimary:
  assumes paren: "\<forall>s0 s r s'. acts strtod s0 s \<longrightarrow> ParseParenExpr strtod n s = Some (r, s') \<longrightarrow> acts strtod s0 s'"
    and ident: "\<forall>s0 s r s'. acts strtod s0 s \<longrightarrow> ParseIdentifierExpr strtod n s = Some (r, s') \<longrightarrow> acts strtod s0 s'"
    and "acts strtod s0 s" and "ParsePrimary strtod (Suc n) s = Some (r, s')"
  shows "acts strtod s0 s'"
  using assms(3-)
  by (auto simp: Let_def split: option.splits prod.splits if_splits
        intro!: acts_error acts_token acts_prec)
     (metis acts_step paren [rule_format] ident [rule_format])+

lemma acts_ParseBinOpRHS:
  assumes primary: "\<forall>s0 s r s'. acts strtod s0 s \<longrightarrow> ParsePrimary strtod n s = Some (r, s') \<longrightarrow> acts strtod s0 s'"
    and binop: "\<forall>s0 s p l r s'. acts strtod s0 s \<longrightarrow> ParseBinOpRHS strtod n p l s = Some (r, s') \<longrightarrow> acts strtod s0 s'"
    and "acts strtod s0 s" and "ParseBinOpRHS strtod (Suc n) p l s = Some (r, s')"
  shows "acts strtod s0 s'"
  using assms(3-)
  by (auto simp: Let_def split: option.splits prod.splits if_splits
        intro!: acts_error acts_token acts_prec)
     (metis acts_step primary [rule_format] binop [rule_format])+

lemma acts_ParseExpression:
  assumes primary: "\<forall>s0 s r s'. acts strtod s0 s \<longrightarrow> ParsePrimary strtod n s = Some (r, s') \<longrightarrow> acts strtod s0 s'"
    and binop: "\<forall>s0 s p l r s'. acts strtod s0 s \<longrightarrow> ParseBinOpRHS strtod n p l s = Some (r, s') \<longrightarrow> acts strtod s0 s'"
    and "acts strtod s0 s" and "ParseExpression strtod (Suc n) s = Some (r, s')"
  shows "acts strtod s0 s'"
  using assms(3-)
  by (auto simp: Let_def split: option.splits prod.splits if_splits
        intro!: acts_error acts_token acts_prec)
     (metis acts_step primary [rule_format] binop [rule_format])+

lemma parser_acts:
  "(\<forall>s0 s r s'. acts strtod s0 s \<longrightarrow> ParseParenExpr strtod n s = Some (r, s') \<longrightarrow> acts strtod s0 s') \<and>
   (\<forall>s0 s r s'. acts strtod s0 s \<longrightarrow> ParseIdentifierExpr strtod n s = Some (r, s') \<longrightarrow> acts strtod s0 s') \<and>
   (\<forall>s0 s a r s'. acts strtod s0 s \<longrightarrow> ParseIdentifierExpr_args strtod n a s = Some (r, s') \<longrightarrow> acts strtod s0 s') \<and>
   (\<forall>s0 s r s'. acts strtod s0 s \<longrightarrow> ParsePrimary strtod n s = Some (r, s') \<longrightarrow> acts strtod s0 s') \<and>
   (\<forall>s0 s p l r s'. acts strtod s0 s \<longrightarrow> ParseBinOpRHS strtod n p l s = Some (r, s') \<longrightarrow> acts strtod s0 s') \<and>
   (\<forall>s0 s r s'. acts strtod s0 s \<longrightarrow> ParseExpression strtod n s = Some (r, s') \<longrightarrow> acts strtod s0 s')"
proof (induction n)
  case 0
  show ?case by simp
next
  case (Suc n)
  show ?case
  proof (intro conjI allI impI)
    fix s0 s r s' assume "acts strtod s0 s" "ParseParenExpr strtod (Suc n) s = Some (r, s')"
    then show "acts strtod s0 s'"
      by (rule acts_ParseParenExpr [OF Suc.IH [THEN conjunct2, THEN conjunct2, THEN conjunct2, THEN conjunct2, THEN conjunct2]])
  next
    fix s0 s r s' assume "acts strtod s0 s" "ParseIdentifierExpr strtod (Suc n) s = Some (r, s')"
    then show "acts strtod s0 s'"
      by (rule acts_ParseIdentifierExpr [OF Suc.IH [THEN conjunct2, THEN conjunct2, THEN conjunct1]])
  next
    fix s0 s a r s' assume "acts strtod s0 s" "ParseIdentifierExpr_args strtod (Suc n) a s = Some (r, s')"
    then show "acts strtod s0 s'"
      by (rule acts_ParseIdentifierExpr_args [OF Suc.IH [THEN conjunct2, THEN conjunct2, THEN conjunct1] Suc.IH [THEN conjunct2, THEN conjunct2, THEN conjunct2, THEN conjunct2, THEN conjunct2]])
  next
    fix s0 s r s' assume "acts strtod s0 s" "ParsePrimary strtod (Suc n) s = Some (r, s')"
    then show "acts strtod s0 s'"
      by (rule acts_ParsePrimary [OF Suc.IH [THEN conjunct1] Suc.IH [THEN conjunct2, THEN conjunct1]])
  next
    fix s0 s p l r s' assume "acts strtod s0 s" "ParseBinOpRHS strtod (Suc n) p l s = Some (r, s')"
    then show "acts strtod s0 s'"
      by (rule acts_ParseBinOpRHS [OF Suc.IH [THEN conjunct2, THEN conjunct2, THEN conjunct2, THEN conjunct1] Suc.IH [THEN conjunct2, THEN conjunct2, THEN conjunct2, THEN conjunct2, THEN conjunct1]])
  next
    fix s0 s r s' assume "acts strtod s0 s" "ParseExpression strtod (Suc n) s = Some (r, s')"
    then show "acts strtod s0 s'"
      by (rule acts_ParseExpression [OF Suc.IH [THEN conjunct2, THEN conjunct2, THEN conjunct2, THEN conjunct1] Suc.IH [THEN conjunct2, THEN conjunct2, THEN conjunct2, THEN conjunct2, THEN conjunct1]])
  qed
qed

lemmas ParseParenExpr_acts = parser_acts [THEN conjunct1, rule_format, OF acts_none]
lemmas ParseIdentifierExpr_acts = parser_acts [THEN conjunct2, THEN conjunct1, rule_format, OF acts_none]
lemmas ParseIdentifierExpr_args_acts =
  parser_acts [THEN conjunct2, THEN conjunct2, THEN conjunct1, rule_format, OF acts_none]
lemmas ParsePrimary_acts =
  parser_acts [THEN conjunct2, THEN conjunct2, THEN conjunct2, THEN conjunct1, rule_format, OF acts_none]
lemmas ParseBinOpRHS_acts =
  parser_acts [THEN conjunct2, THEN conjunct2, THEN conjunct2, THEN conjunct2, THEN conjunct1,
    rule_format, OF acts_none]

text \<open>
  A measure for progress: twice the characters not yet consumed, plus one while the
  current token is not the end of the input. Reading a token never increases it, and
  decreases it when the current token is not the end of the input.
\<close>

definition pending :: "'d state \<Rightarrow> nat" where
  "pending s = 2 * unread s + (if CurTok s = EOFToken then 0 else 1)"

lemma CurTok_getNextToken [simp]:
  "CurTok (snd (getNextToken strtod s)) = fst (getNextToken strtod s)"
  by (simp add: getNextToken_eq)

lemma pending_getNextToken:
  "pending (snd (getNextToken strtod s)) \<le> pending s"
  "CurTok s \<noteq> EOFToken \<Longrightarrow> pending (snd (getNextToken strtod s)) < pending s"
  "pending (snd (getNextToken strtod s)) = pending s \<Longrightarrow>
     CurTok (snd (getNextToken strtod s)) = CurTok s"
  "pending (snd (getNextToken strtod s)) < pending s \<or>
     CurTok (snd (getNextToken strtod s)) = EOFToken"
  using unread_getNextToken [of strtod s]
  by (auto simp: pending_def split: if_splits) presburger+

lemma GetTokPrecedence_frame [simp]:
  "stdin (snd (GetTokPrecedence s)) = stdin s"
  "LastChar (snd (GetTokPrecedence s)) = LastChar s"
  "CurTok (snd (GetTokPrecedence s)) = CurTok s"
  "IdentifierStr (snd (GetTokPrecedence s)) = IdentifierStr s"
  "NumVal (snd (GetTokPrecedence s)) = NumVal s"
  "stdout (snd (GetTokPrecedence s)) = stdout s"
  "stderr (snd (GetTokPrecedence s)) = stderr s"
  by (simp_all add: GetTokPrecedence_def Let_def split: option.splits)

lemma LogError_frame [simp]:
  "stdin (snd (LogError Str s)) = stdin s"
  "LastChar (snd (LogError Str s)) = LastChar s"
  "CurTok (snd (LogError Str s)) = CurTok s"
  "IdentifierStr (snd (LogError Str s)) = IdentifierStr s"
  "NumVal (snd (LogError Str s)) = NumVal s"
  "stdout (snd (LogError Str s)) = stdout s"
  "BinopPrecedence (snd (LogError Str s)) = BinopPrecedence s"
  by (simp_all add: LogError_def)

lemma pending_frame [simp]:
  "pending (snd (GetTokPrecedence s)) = pending s"
  "pending (snd (LogError Str s)) = pending s"
  by (simp_all add: pending_def unread_def)

lemma acts_pending:
  "acts strtod s s' \<Longrightarrow>
     pending s' \<le> pending s \<and> (pending s' = pending s \<longrightarrow> CurTok s' = CurTok s)"
proof (induction rule: acts.induct)
  case (acts_none s)
  show ?case by simp
next
  case (acts_token s s1)
  then show ?case
    using pending_getNextToken(1,3) [of strtod s1] by auto
next
  case (acts_prec s s1)
  then show ?case by simp
next
  case (acts_error s s1 Str)
  then show ?case by simp
qed

lemma acts_pending_le: "acts strtod s s' \<Longrightarrow> pending s' \<le> pending s"
  using acts_pending by blast

text \<open>A step of the lexer from a token that is not the end, then anything: fewer pending.\<close>

lemma acts_after_token:
  "CurTok s \<noteq> EOFToken \<Longrightarrow> acts strtod (snd (getNextToken strtod s)) s' \<Longrightarrow> pending s' < pending s"
  using pending_getNextToken(2) [of s strtod] acts_pending_le [of strtod "snd (getNextToken strtod s)" s']
  by simp

section \<open>A larger bound does not change a result\<close>

lemma mono_ParseParenExpr:
  assumes expr: "\<forall>m s. ParseExpression strtod n s \<noteq> None \<longrightarrow> n \<le> m \<longrightarrow> ParseExpression strtod m s = ParseExpression strtod n s"
    and "ParseParenExpr strtod (Suc n) s \<noteq> None" and "Suc n \<le> m"
  shows "ParseParenExpr strtod m s = ParseParenExpr strtod (Suc n) s"
proof -
  obtain m' where m: "m = Suc m'" "n \<le> m'" using assms(3) by (cases m) auto
  show ?thesis
    using assms(2) unfolding m(1)
    by (auto simp: expr [rule_format, OF _ m(2)] Let_def
          split: option.splits prod.splits if_splits)
qed

lemma mono_ParseIdentifierExpr:
  assumes args: "\<forall>m a s. ParseIdentifierExpr_args strtod n a s \<noteq> None \<longrightarrow> n \<le> m \<longrightarrow> ParseIdentifierExpr_args strtod m a s = ParseIdentifierExpr_args strtod n a s"
    and "ParseIdentifierExpr strtod (Suc n) s \<noteq> None" and "Suc n \<le> m"
  shows "ParseIdentifierExpr strtod m s = ParseIdentifierExpr strtod (Suc n) s"
proof -
  obtain m' where m: "m = Suc m'" "n \<le> m'" using assms(3) by (cases m) auto
  show ?thesis
    using assms(2) unfolding m(1)
    by (auto simp: args [rule_format, OF _ m(2)] Let_def
          split: option.splits prod.splits if_splits)
qed

lemma mono_ParseIdentifierExpr_args:
  assumes args: "\<forall>m a s. ParseIdentifierExpr_args strtod n a s \<noteq> None \<longrightarrow> n \<le> m \<longrightarrow> ParseIdentifierExpr_args strtod m a s = ParseIdentifierExpr_args strtod n a s"
    and expr: "\<forall>m s. ParseExpression strtod n s \<noteq> None \<longrightarrow> n \<le> m \<longrightarrow> ParseExpression strtod m s = ParseExpression strtod n s"
    and "ParseIdentifierExpr_args strtod (Suc n) a s \<noteq> None" and "Suc n \<le> m"
  shows "ParseIdentifierExpr_args strtod m a s = ParseIdentifierExpr_args strtod (Suc n) a s"
proof -
  obtain m' where m: "m = Suc m'" "n \<le> m'" using assms(4) by (cases m) auto
  show ?thesis
    using assms(3) unfolding m(1)
    by (auto simp: args [rule_format, OF _ m(2)] expr [rule_format, OF _ m(2)] Let_def
          split: option.splits prod.splits if_splits)
qed

lemma mono_ParsePrimary:
  assumes paren: "\<forall>m s. ParseParenExpr strtod n s \<noteq> None \<longrightarrow> n \<le> m \<longrightarrow> ParseParenExpr strtod m s = ParseParenExpr strtod n s"
    and ident: "\<forall>m s. ParseIdentifierExpr strtod n s \<noteq> None \<longrightarrow> n \<le> m \<longrightarrow> ParseIdentifierExpr strtod m s = ParseIdentifierExpr strtod n s"
    and "ParsePrimary strtod (Suc n) s \<noteq> None" and "Suc n \<le> m"
  shows "ParsePrimary strtod m s = ParsePrimary strtod (Suc n) s"
proof -
  obtain m' where m: "m = Suc m'" "n \<le> m'" using assms(4) by (cases m) auto
  show ?thesis
    using assms(3) unfolding m(1)
    by (auto simp: paren [rule_format, OF _ m(2)] ident [rule_format, OF _ m(2)] Let_def
          split: option.splits prod.splits if_splits)
qed

lemma mono_ParseBinOpRHS:
  assumes primary: "\<forall>m s. ParsePrimary strtod n s \<noteq> None \<longrightarrow> n \<le> m \<longrightarrow> ParsePrimary strtod m s = ParsePrimary strtod n s"
    and binop: "\<forall>m p l s. ParseBinOpRHS strtod n p l s \<noteq> None \<longrightarrow> n \<le> m \<longrightarrow> ParseBinOpRHS strtod m p l s = ParseBinOpRHS strtod n p l s"
    and some: "ParseBinOpRHS strtod (Suc n) p l s \<noteq> None" and "Suc n \<le> m"
  shows "ParseBinOpRHS strtod m p l s = ParseBinOpRHS strtod (Suc n) p l s"
proof -
  obtain m' where m: "m = Suc m'" "n \<le> m'" using assms(4) by (cases m) auto
  note pm = primary [rule_format, OF _ m(2)]
  note bm = binop [rule_format, OF _ m(2)]
  obtain TokPrec s1 where g: "GetTokPrecedence s = (TokPrec, s1)" by (cases "GetTokPrecedence s")
  define s2 where "s2 = snd (getNextToken strtod s1)"
  show ?thesis
  proof (cases "TokPrec < p")
    case True
    then show ?thesis by (simp add: m(1) g)
  next
    case False
    have unf: "\<And>k. ParseBinOpRHS strtod (Suc k) p l s =
      (case ParsePrimary strtod k s2 of
              None \<Rightarrow> None
            | Some (None, s3) \<Rightarrow> Some (None, s3)
            | Some (Some RHS, s3) \<Rightarrow>
                (let (NextPrec, s4) = GetTokPrecedence s3 in
                 if TokPrec < NextPrec
                 then
                   (case ParseBinOpRHS strtod k (TokPrec + 1) RHS s4 of
                      None \<Rightarrow> None
                    | Some (None, s5) \<Rightarrow> Some (None, s5)
                    | Some (Some RHS1, s5) \<Rightarrow>
                        ParseBinOpRHS strtod k p
                          (BinaryExprAST (char_of (CurTok s1)) l RHS1) s5)
                 else
                   ParseBinOpRHS strtod k p
                     (BinaryExprAST (char_of (CurTok s1)) l RHS) s4))"
      using False by (simp add: g s2_def Let_def)
    note some' = some [unfolded unf]
    from some' have pn: "ParsePrimary strtod n s2 \<noteq> None"
      by (auto split: option.splits)
    then obtain r s3 where p1: "ParsePrimary strtod n s2 = Some (r, s3)" by auto
    have p2: "ParsePrimary strtod m' s2 = Some (r, s3)" using pm [OF pn] p1 by simp
    show ?thesis
    proof (cases r)
      case None
      then show ?thesis unfolding m(1) unf by (simp add: p1 p2)
    next
      case (Some RHS)
      obtain NextPrec s4 where g2: "GetTokPrecedence s3 = (NextPrec, s4)"
        by (cases "GetTokPrecedence s3")
      show ?thesis
      proof (cases "TokPrec < NextPrec")
        case True
        from some' have bn: "ParseBinOpRHS strtod n (TokPrec + 1) RHS s4 \<noteq> None"
          using True by (auto simp: p1 Some g2 split: option.splits)
        then obtain r1 s5 where b1: "ParseBinOpRHS strtod n (TokPrec + 1) RHS s4 = Some (r1, s5)"
          by auto
        have b2: "ParseBinOpRHS strtod m' (TokPrec + 1) RHS s4 = Some (r1, s5)"
          using bm [OF bn] b1 by simp
        show ?thesis
        proof (cases r1)
          case None
          then show ?thesis using True unfolding m(1) unf by (simp add: p1 p2 Some g2 b1 b2)
        next
          case (Some RHS1)
          from some' have "ParseBinOpRHS strtod n p (BinaryExprAST (char_of (CurTok s1)) l RHS1) s5 \<noteq> None"
            using True by (simp add: p1 \<open>r = Some RHS\<close> g2 b1 Some)
          from bm [OF this] show ?thesis
            using True unfolding m(1) unf by (simp add: p1 p2 \<open>r = Some RHS\<close> g2 b1 b2 Some)
        qed
      next
        case False
        from some' have "ParseBinOpRHS strtod n p (BinaryExprAST (char_of (CurTok s1)) l RHS) s4 \<noteq> None"
          using False by (simp add: p1 Some g2)
        from bm [OF this] show ?thesis
          using False unfolding m(1) unf by (simp add: p1 p2 Some g2)
      qed
    qed
  qed
qed

lemma mono_ParseExpression:
  assumes primary: "\<forall>m s. ParsePrimary strtod n s \<noteq> None \<longrightarrow> n \<le> m \<longrightarrow> ParsePrimary strtod m s = ParsePrimary strtod n s"
    and binop: "\<forall>m p l s. ParseBinOpRHS strtod n p l s \<noteq> None \<longrightarrow> n \<le> m \<longrightarrow> ParseBinOpRHS strtod m p l s = ParseBinOpRHS strtod n p l s"
    and "ParseExpression strtod (Suc n) s \<noteq> None" and "Suc n \<le> m"
  shows "ParseExpression strtod m s = ParseExpression strtod (Suc n) s"
proof -
  obtain m' where m: "m = Suc m'" "n \<le> m'" using assms(4) by (cases m) auto
  show ?thesis
    using assms(3) unfolding m(1)
    by (auto simp: primary [rule_format, OF _ m(2)] binop [rule_format, OF _ m(2)] Let_def
          split: option.splits prod.splits if_splits)
qed

lemma parser_mono:
  "(\<forall>m s. ParseParenExpr strtod n s \<noteq> None \<longrightarrow> n \<le> m \<longrightarrow> ParseParenExpr strtod m s = ParseParenExpr strtod n s) \<and>
   (\<forall>m s. ParseIdentifierExpr strtod n s \<noteq> None \<longrightarrow> n \<le> m \<longrightarrow> ParseIdentifierExpr strtod m s = ParseIdentifierExpr strtod n s) \<and>
   (\<forall>m a s. ParseIdentifierExpr_args strtod n a s \<noteq> None \<longrightarrow> n \<le> m \<longrightarrow> ParseIdentifierExpr_args strtod m a s = ParseIdentifierExpr_args strtod n a s) \<and>
   (\<forall>m s. ParsePrimary strtod n s \<noteq> None \<longrightarrow> n \<le> m \<longrightarrow> ParsePrimary strtod m s = ParsePrimary strtod n s) \<and>
   (\<forall>m p l s. ParseBinOpRHS strtod n p l s \<noteq> None \<longrightarrow> n \<le> m \<longrightarrow> ParseBinOpRHS strtod m p l s = ParseBinOpRHS strtod n p l s) \<and>
   (\<forall>m s. ParseExpression strtod n s \<noteq> None \<longrightarrow> n \<le> m \<longrightarrow> ParseExpression strtod m s = ParseExpression strtod n s)"
proof (induction n)
  case 0
  show ?case by simp
next
  case (Suc n)
  show ?case
  proof (intro conjI allI impI)
    fix m s assume "ParseParenExpr strtod (Suc n) s \<noteq> None" "Suc n \<le> m"
    then show "ParseParenExpr strtod m s = ParseParenExpr strtod (Suc n) s"
      by (rule mono_ParseParenExpr [OF Suc.IH [THEN conjunct2, THEN conjunct2, THEN conjunct2, THEN conjunct2, THEN conjunct2]])
  next
    fix m s assume "ParseIdentifierExpr strtod (Suc n) s \<noteq> None" "Suc n \<le> m"
    then show "ParseIdentifierExpr strtod m s = ParseIdentifierExpr strtod (Suc n) s"
      by (rule mono_ParseIdentifierExpr [OF Suc.IH [THEN conjunct2, THEN conjunct2, THEN conjunct1]])
  next
    fix m a s assume "ParseIdentifierExpr_args strtod (Suc n) a s \<noteq> None" "Suc n \<le> m"
    then show "ParseIdentifierExpr_args strtod m a s = ParseIdentifierExpr_args strtod (Suc n) a s"
      by (rule mono_ParseIdentifierExpr_args [OF Suc.IH [THEN conjunct2, THEN conjunct2, THEN conjunct1] Suc.IH [THEN conjunct2, THEN conjunct2, THEN conjunct2, THEN conjunct2, THEN conjunct2]])
  next
    fix m s assume "ParsePrimary strtod (Suc n) s \<noteq> None" "Suc n \<le> m"
    then show "ParsePrimary strtod m s = ParsePrimary strtod (Suc n) s"
      by (rule mono_ParsePrimary [OF Suc.IH [THEN conjunct1] Suc.IH [THEN conjunct2, THEN conjunct1]])
  next
    fix m p l s assume "ParseBinOpRHS strtod (Suc n) p l s \<noteq> None" "Suc n \<le> m"
    then show "ParseBinOpRHS strtod m p l s = ParseBinOpRHS strtod (Suc n) p l s"
      by (rule mono_ParseBinOpRHS [OF Suc.IH [THEN conjunct2, THEN conjunct2, THEN conjunct2, THEN conjunct1] Suc.IH [THEN conjunct2, THEN conjunct2, THEN conjunct2, THEN conjunct2, THEN conjunct1]])
  next
    fix m s assume "ParseExpression strtod (Suc n) s \<noteq> None" "Suc n \<le> m"
    then show "ParseExpression strtod m s = ParseExpression strtod (Suc n) s"
      by (rule mono_ParseExpression [OF Suc.IH [THEN conjunct2, THEN conjunct2, THEN conjunct2, THEN conjunct1] Suc.IH [THEN conjunct2, THEN conjunct2, THEN conjunct2, THEN conjunct2, THEN conjunct1]])
  qed
qed

lemmas ParseParenExpr_mono = parser_mono [THEN conjunct1, rule_format]
lemmas ParseIdentifierExpr_mono = parser_mono [THEN conjunct2, THEN conjunct1, rule_format]
lemmas ParseIdentifierExpr_args_mono = parser_mono [THEN conjunct2, THEN conjunct2, THEN conjunct1, rule_format]
lemmas ParsePrimary_mono = parser_mono [THEN conjunct2, THEN conjunct2, THEN conjunct2, THEN conjunct1, rule_format]
lemmas ParseBinOpRHS_mono = parser_mono [THEN conjunct2, THEN conjunct2, THEN conjunct2, THEN conjunct2, THEN conjunct1, rule_format]
lemmas ParseExpression_mono = parser_mono [THEN conjunct2, THEN conjunct2, THEN conjunct2, THEN conjunct2, THEN conjunct2, rule_format]

section \<open>The parser returns\<close>

declare ParseParenExpr.simps [simp del] ParseIdentifierExpr.simps [simp del]
  ParseIdentifierExpr_args.simps [simp del] ParsePrimary.simps [simp del]
  ParseBinOpRHS.simps [simp del] ParseExpression.simps [simp del]

lemmas ParseIdentifierExpr_args_acts_from =
  parser_acts [THEN conjunct2, THEN conjunct2, THEN conjunct1, rule_format]
lemmas ParseExpression_acts_from =
  parser_acts [THEN conjunct2, THEN conjunct2, THEN conjunct2, THEN conjunct2, THEN conjunct2,
    rule_format]

lemma pending_GetTokPrecedence_pair:
  "GetTokPrecedence s = (p, s1) \<Longrightarrow> pending s1 = pending s \<and> CurTok s1 = CurTok s"
  using pending_frame(1) [of s] GetTokPrecedence_frame(3) [of s] by simp

text \<open>More fuel does not change a result.\<close>

lemma ParsePrimary_lift:
  "ParsePrimary strtod n s = Some x \<Longrightarrow> n \<le> m \<Longrightarrow> ParsePrimary strtod m s = Some x"
  using ParsePrimary_mono [of strtod n s m] by simp

lemma ParseBinOpRHS_lift:
  "ParseBinOpRHS strtod n p l s = Some x \<Longrightarrow> n \<le> m \<Longrightarrow> ParseBinOpRHS strtod m p l s = Some x"
  using ParseBinOpRHS_mono [of strtod n p l s m] by simp

lemma ParseExpression_lift:
  "ParseExpression strtod n s = Some x \<Longrightarrow> n \<le> m \<Longrightarrow> ParseExpression strtod m s = Some x"
  using ParseExpression_mono [of strtod n s m] by simp

lemma ParseIdentifierExpr_args_lift:
  "ParseIdentifierExpr_args strtod n a s = Some x \<Longrightarrow> n \<le> m \<Longrightarrow>
   ParseIdentifierExpr_args strtod m a s = Some x"
  using ParseIdentifierExpr_args_mono [of strtod n a s m] by simp

text \<open>A primary expression that is parsed has consumed a token.\<close>

lemma ParsePrimary_success_less:
  assumes "ParsePrimary strtod n s = Some (Some e, s')"
  shows "pending s' < pending s"
proof -
  obtain k where n: "n = Suc k" using assms by (cases n) (simp_all add: ParsePrimary.simps)
  consider (ident) "CurTok s = IdentifierToken" | (num) "CurTok s = NumberToken"
    | (paren) "CurTok s = of_char CHR ''(''"
    | (other) "CurTok s \<noteq> IdentifierToken" "CurTok s \<noteq> NumberToken" "CurTok s \<noteq> of_char CHR ''(''"
    by blast
  then show ?thesis
  proof cases
    case ident
    then have i: "ParseIdentifierExpr strtod k s = Some (Some e, s')"
      using assms by (simp add: n ParsePrimary.simps)
    then obtain j where k: "k = Suc j" by (cases k) (simp_all add: ParseIdentifierExpr.simps)
    have "acts strtod (snd (getNextToken strtod s)) s'"
      using i unfolding k
      by (auto simp: ParseIdentifierExpr.simps Let_def split: if_splits option.splits prod.splits
            intro!: acts_token acts_none)
         (metis acts_token acts_none ParseIdentifierExpr_args_acts_from)
    then show ?thesis using ident by (intro acts_after_token) simp_all
  next
    case num
    then have "s' = snd (getNextToken strtod s)"
      using assms by (simp add: n ParsePrimary.simps ParseNumberExpr_def Let_def)
    then show ?thesis using num pending_getNextToken(2) [of s strtod] by simp
  next
    case paren
    then have i: "ParseParenExpr strtod k s = Some (Some e, s')"
      using assms by (simp add: n ParsePrimary.simps)
    then obtain j where k: "k = Suc j" by (cases k) (simp_all add: ParseParenExpr.simps)
    have "acts strtod (snd (getNextToken strtod s)) s'"
      using i unfolding k
      by (auto simp: ParseParenExpr.simps Let_def split: if_splits option.splits prod.splits
            intro!: acts_token acts_none)
         (metis acts_none ParseExpression_acts_from)+
    then show ?thesis using paren by (intro acts_after_token) simp_all
  next
    case other
    then show ?thesis using assms by (simp add: n ParsePrimary.simps)
  qed
qed

lemma ParseExpression_success_less:
  assumes "ParseExpression strtod n s = Some (Some e, s')"
  shows "pending s' < pending s"
proof -
  obtain k where n: "n = Suc k" using assms by (cases n) (simp_all add: ParseExpression.simps)
  from assms obtain LHS s1 where p: "ParsePrimary strtod k s = Some (Some LHS, s1)"
    and b: "ParseBinOpRHS strtod k 0 LHS s1 = Some (Some e, s')"
    by (auto simp: n ParseExpression.simps split: option.splits)
  have "pending s1 < pending s" using p by (rule ParsePrimary_success_less)
  moreover have "pending s' \<le> pending s1"
    using ParseBinOpRHS_acts [OF b] by (rule acts_pending_le)
  ultimately show ?thesis by simp
qed

text \<open>At the end of the input there is no primary expression, whatever the bound.\<close>

lemma ParsePrimary_EOF:
  "CurTok s = EOFToken \<Longrightarrow> ParsePrimary strtod (Suc n) s \<noteq> None"
  by (simp add: ParsePrimary.simps)

lemma ParseExpression_EOF:
  "CurTok s = EOFToken \<Longrightarrow> ParseExpression strtod (Suc (Suc n)) s \<noteq> None"
  by (simp add: ParseExpression.simps ParsePrimary.simps LogError_def)

text \<open>
  Termination. The induction is on \<open>pending\<close>; \<open>below s t\<close> says that the induction
  hypothesis applies to \<open>t\<close>, or that \<open>t\<close> is at the end of the input.
\<close>

lemma total_paren:
  assumes expr: "\<forall>t. pending t < pending s \<longrightarrow> (\<exists>n. ParseExpression strtod n t \<noteq> None)"
  shows "\<exists>n. ParseParenExpr strtod n s \<noteq> None"
proof -
  define s1 where "s1 = snd (getNextToken strtod s)"
  have "pending s1 < pending s \<or> CurTok s1 = EOFToken"
    unfolding s1_def by (rule pending_getNextToken(4))
  then obtain n where "ParseExpression strtod n s1 \<noteq> None"
    using expr ParseExpression_EOF [of s1 strtod 0] by blast
  then have "ParseParenExpr strtod (Suc n) s \<noteq> None"
    by (auto simp: ParseParenExpr.simps s1_def [symmetric] Let_def LogError_def
          split: option.splits)
  then show ?thesis ..
qed

lemma total_ident:
  assumes args: "\<forall>t a. pending t < pending s \<longrightarrow> (\<exists>n. ParseIdentifierExpr_args strtod n a t \<noteq> None)"
  shows "\<exists>n. ParseIdentifierExpr strtod n s \<noteq> None"
proof -
  define s1 where "s1 = snd (getNextToken strtod s)"
  define s2 where "s2 = snd (getNextToken strtod s1)"
  show ?thesis
  proof (cases "CurTok s1 = of_char CHR ''('' \<and> CurTok s2 \<noteq> of_char CHR '')''")
    case True
    then have "CurTok s1 \<noteq> EOFToken" by auto
    then have "pending s2 < pending s1"
      unfolding s2_def by (rule pending_getNextToken(2))
    moreover have "pending s1 \<le> pending s"
      unfolding s1_def by (rule pending_getNextToken(1))
    ultimately obtain n where "ParseIdentifierExpr_args strtod n [] s2 \<noteq> None"
      using args by (metis less_le_trans)
    then have "ParseIdentifierExpr strtod (Suc n) s \<noteq> None"
      using True
      by (auto simp: ParseIdentifierExpr.simps s1_def [symmetric] s2_def [symmetric] Let_def
            split: option.splits)
    then show ?thesis ..
  next
    case False
    then have "ParseIdentifierExpr strtod (Suc 0) s \<noteq> None"
      by (auto simp: ParseIdentifierExpr.simps s1_def [symmetric] s2_def [symmetric] Let_def)
    then show ?thesis ..
  qed
qed

lemma total_primary:
  assumes "\<exists>n. ParseParenExpr strtod n s \<noteq> None"
    and "\<exists>n. ParseIdentifierExpr strtod n s \<noteq> None"
  shows "\<exists>n. ParsePrimary strtod n s \<noteq> None"
proof -
  obtain n1 n2 where "ParseParenExpr strtod n1 s \<noteq> None" "ParseIdentifierExpr strtod n2 s \<noteq> None"
    using assms by blast
  then have "ParsePrimary strtod (Suc n1) s \<noteq> None \<or> ParsePrimary strtod (Suc n2) s \<noteq> None"
    by (simp add: ParsePrimary.simps)
  then show ?thesis by blast
qed

lemma total_binop:
  assumes primary: "\<forall>t. pending t < pending s \<longrightarrow> (\<exists>n. ParsePrimary strtod n t \<noteq> None)"
    and binop: "\<forall>t p l. pending t < pending s \<longrightarrow> (\<exists>n. ParseBinOpRHS strtod n p l t \<noteq> None)"
  shows "\<exists>n. ParseBinOpRHS strtod n p l s \<noteq> None"
proof -
  obtain TokPrec s1 where g: "GetTokPrecedence s = (TokPrec, s1)" by (cases "GetTokPrecedence s")
  have s1: "pending s1 = pending s" using pending_GetTokPrecedence_pair [OF g] by simp
  define s2 where "s2 = snd (getNextToken strtod s1)"
  show ?thesis
  proof (cases "TokPrec < p")
    case True
    then have "ParseBinOpRHS strtod (Suc 0) p l s \<noteq> None"
      by (simp add: ParseBinOpRHS.simps g)
    then show ?thesis ..
  next
    case False
    have unf: "\<And>k. ParseBinOpRHS strtod (Suc k) p l s =
      (case ParsePrimary strtod k s2 of
              None \<Rightarrow> None
            | Some (None, s3) \<Rightarrow> Some (None, s3)
            | Some (Some RHS, s3) \<Rightarrow>
                (let (NextPrec, s4) = GetTokPrecedence s3 in
                 if TokPrec < NextPrec
                 then
                   (case ParseBinOpRHS strtod k (TokPrec + 1) RHS s4 of
                      None \<Rightarrow> None
                    | Some (None, s5) \<Rightarrow> Some (None, s5)
                    | Some (Some RHS1, s5) \<Rightarrow>
                        ParseBinOpRHS strtod k p
                          (BinaryExprAST (char_of (CurTok s1)) l RHS1) s5)
                 else
                   ParseBinOpRHS strtod k p
                     (BinaryExprAST (char_of (CurTok s1)) l RHS) s4))"
      using False by (simp add: ParseBinOpRHS.simps g s2_def Let_def)
    have s2: "pending s2 \<le> pending s"
      unfolding s2_def using pending_getNextToken(1) [of strtod s1] s1 by simp
    have "pending s2 < pending s \<or> CurTok s2 = EOFToken"
      unfolding s2_def using pending_getNextToken(4) [of strtod s1] s1 by simp
    then obtain n1 where "ParsePrimary strtod n1 s2 \<noteq> None"
      using primary ParsePrimary_EOF [of s2 strtod 0] by blast
    then obtain r s3 where p1: "ParsePrimary strtod n1 s2 = Some (r, s3)" by auto
    show ?thesis
    proof (cases r)
      case None
      then have "ParseBinOpRHS strtod (Suc n1) p l s \<noteq> None"
        unfolding unf by (simp add: p1)
      then show ?thesis ..
    next
      case (Some RHS)
      have s3: "pending s3 < pending s"
        using ParsePrimary_success_less [of strtod n1 s2 RHS s3] p1 Some s2 by simp
      obtain NextPrec s4 where g2: "GetTokPrecedence s3 = (NextPrec, s4)"
        by (cases "GetTokPrecedence s3")
      have s4: "pending s4 < pending s" using pending_GetTokPrecedence_pair [OF g2] s3 by simp
      show ?thesis
      proof (cases "TokPrec < NextPrec")
        case True
        obtain n2 where "ParseBinOpRHS strtod n2 (TokPrec + 1) RHS s4 \<noteq> None"
          using binop s4 by blast
        then obtain r1 s5 where b1: "ParseBinOpRHS strtod n2 (TokPrec + 1) RHS s4 = Some (r1, s5)"
          by auto
        show ?thesis
        proof (cases r1)
          case None
          define N where "N = max n1 n2"
          have "ParsePrimary strtod N s2 = Some (r, s3)"
            using p1 by (rule ParsePrimary_lift) (simp add: N_def)
          moreover have "ParseBinOpRHS strtod N (TokPrec + 1) RHS s4 = Some (r1, s5)"
            using b1 by (rule ParseBinOpRHS_lift) (simp add: N_def)
          ultimately have "ParseBinOpRHS strtod (Suc N) p l s \<noteq> None"
            unfolding unf using True None \<open>r = Some RHS\<close> by (simp add: g2)
          then show ?thesis ..
        next
          case (Some RHS1)
          have "pending s5 \<le> pending s4"
            using ParseBinOpRHS_acts [OF b1] by (rule acts_pending_le)
          then have "pending s5 < pending s" using s4 by simp
          then obtain n3 where
            b3: "ParseBinOpRHS strtod n3 p (BinaryExprAST (char_of (CurTok s1)) l RHS1) s5 \<noteq> None"
            using binop by blast
          define N where "N = max n1 (max n2 n3)"
          have "ParsePrimary strtod N s2 = Some (r, s3)"
            using p1 by (rule ParsePrimary_lift) (simp add: N_def)
          moreover have "ParseBinOpRHS strtod N (TokPrec + 1) RHS s4 = Some (r1, s5)"
            using b1 by (rule ParseBinOpRHS_lift) (simp add: N_def)
          moreover have "ParseBinOpRHS strtod N p (BinaryExprAST (char_of (CurTok s1)) l RHS1) s5 \<noteq> None"
            using b3 ParseBinOpRHS_mono [OF b3, of N] by (simp add: N_def)
          ultimately have "ParseBinOpRHS strtod (Suc N) p l s \<noteq> None"
            unfolding unf using True Some \<open>r = Some RHS\<close> by (simp add: g2)
          then show ?thesis ..
        qed
      next
        case False
        obtain n2 where
          b2: "ParseBinOpRHS strtod n2 p (BinaryExprAST (char_of (CurTok s1)) l RHS) s4 \<noteq> None"
          using binop s4 by blast
        define N where "N = max n1 n2"
        have "ParsePrimary strtod N s2 = Some (r, s3)"
          using p1 by (rule ParsePrimary_lift) (simp add: N_def)
        moreover have "ParseBinOpRHS strtod N p (BinaryExprAST (char_of (CurTok s1)) l RHS) s4 \<noteq> None"
          using b2 ParseBinOpRHS_mono [OF b2, of N] by (simp add: N_def)
        ultimately have "ParseBinOpRHS strtod (Suc N) p l s \<noteq> None"
          unfolding unf using False Some by (simp add: g2)
        then show ?thesis ..
      qed
    qed
  qed
qed

lemma total_expr:
  assumes primary: "\<exists>n. ParsePrimary strtod n s \<noteq> None"
    and binop: "\<forall>t p l. pending t < pending s \<longrightarrow> (\<exists>n. ParseBinOpRHS strtod n p l t \<noteq> None)"
  shows "\<exists>n. ParseExpression strtod n s \<noteq> None"
proof -
  obtain n1 r s1 where p1: "ParsePrimary strtod n1 s = Some (r, s1)" using primary by auto
  show ?thesis
  proof (cases r)
    case None
    then have "ParseExpression strtod (Suc n1) s \<noteq> None"
      by (simp add: ParseExpression.simps p1)
    then show ?thesis ..
  next
    case (Some LHS)
    have "pending s1 < pending s"
      using ParsePrimary_success_less [of strtod n1 s LHS s1] p1 Some by simp
    then obtain n2 where b2: "ParseBinOpRHS strtod n2 0 LHS s1 \<noteq> None" using binop by blast
    define N where "N = max n1 n2"
    have "ParsePrimary strtod N s = Some (r, s1)"
      using p1 by (rule ParsePrimary_lift) (simp add: N_def)
    moreover have "ParseBinOpRHS strtod N 0 LHS s1 \<noteq> None"
      using b2 ParseBinOpRHS_mono [OF b2, of N] by (simp add: N_def)
    ultimately have "ParseExpression strtod (Suc N) s \<noteq> None"
      using Some by (simp add: ParseExpression.simps)
    then show ?thesis ..
  qed
qed

lemma total_args:
  assumes expr: "\<exists>n. ParseExpression strtod n s \<noteq> None"
    and args: "\<forall>t a. pending t < pending s \<longrightarrow> (\<exists>n. ParseIdentifierExpr_args strtod n a t \<noteq> None)"
  shows "\<exists>n. ParseIdentifierExpr_args strtod n a s \<noteq> None"
proof -
  obtain n1 r s1 where e1: "ParseExpression strtod n1 s = Some (r, s1)" using expr by auto
  show ?thesis
  proof (cases r)
    case None
    then have "ParseIdentifierExpr_args strtod (Suc n1) a s \<noteq> None"
      by (simp add: ParseIdentifierExpr_args.simps e1)
    then show ?thesis ..
  next
    case (Some Arg)
    have less: "pending s1 < pending s"
      using ParseExpression_success_less [of strtod n1 s Arg s1] e1 Some by simp
    define s2 where "s2 = snd (getNextToken strtod s1)"
    have "pending s2 \<le> pending s1" unfolding s2_def by (rule pending_getNextToken(1))
    then have "pending s2 < pending s" using less by simp
    then obtain n2 where a2: "ParseIdentifierExpr_args strtod n2 (a @ [Arg]) s2 \<noteq> None"
      using args by blast
    define N where "N = max n1 n2"
    have "ParseExpression strtod N s = Some (r, s1)"
      using e1 by (rule ParseExpression_lift) (simp add: N_def)
    moreover have "ParseIdentifierExpr_args strtod N (a @ [Arg]) s2 \<noteq> None"
      using a2 ParseIdentifierExpr_args_mono [OF a2, of N] by (simp add: N_def)
    ultimately have "ParseIdentifierExpr_args strtod (Suc N) a s \<noteq> None"
      using Some
      by (simp add: ParseIdentifierExpr_args.simps s2_def [symmetric] Let_def LogError_def)
    then show ?thesis ..
  qed
qed

lemma parser_total:
  "(\<exists>n. ParseParenExpr strtod n s \<noteq> None) \<and>
   (\<exists>n. ParseIdentifierExpr strtod n s \<noteq> None) \<and>
   (\<forall>a. \<exists>n. ParseIdentifierExpr_args strtod n a s \<noteq> None) \<and>
   (\<exists>n. ParsePrimary strtod n s \<noteq> None) \<and>
   (\<forall>p l. \<exists>n. ParseBinOpRHS strtod n p l s \<noteq> None) \<and>
   (\<exists>n. ParseExpression strtod n s \<noteq> None)"
proof (induction s rule: measure_induct_rule [of pending])
  case (less s)
  have paren: "\<exists>n. ParseParenExpr strtod n s \<noteq> None"
    by (rule total_paren) (use less.IH in blast)
  have ident: "\<exists>n. ParseIdentifierExpr strtod n s \<noteq> None"
    by (rule total_ident) (use less.IH in blast)
  have primary: "\<exists>n. ParsePrimary strtod n s \<noteq> None"
    using paren ident by (rule total_primary)
  have binop: "\<exists>n. ParseBinOpRHS strtod n p l s \<noteq> None" for p l
    by (rule total_binop) (use less.IH in blast)+
  have expr: "\<exists>n. ParseExpression strtod n s \<noteq> None"
    using primary by (rule total_expr) (use less.IH in blast)
  have args: "\<exists>n. ParseIdentifierExpr_args strtod n a s \<noteq> None" for a
    using expr by (rule total_args) (use less.IH in blast)
  show ?case using paren ident args primary binop expr by blast
qed

section \<open>The handlers and the driver\<close>

text \<open>The prototype parser and the top-level forms act on the state in the same way.\<close>

lemma acts_ParsePrototype_args:
  "acts strtod s0 s \<Longrightarrow> acts strtod s0 (snd (ParsePrototype_args strtod a s))"
proof (induction strtod a s rule: ParsePrototype_args.induct)
  case (1 strtod ArgNames s)
  obtain t s1 where g: "getNextToken strtod s = (t, s1)" by (cases "getNextToken strtod s")
  then have s1: "s1 = snd (getNextToken strtod s)" by simp
  have a1: "acts strtod s0 s1" unfolding s1 using "1.prems" by (rule acts_token)
  show ?case
  proof (cases "t = IdentifierToken")
    case True
    then show ?thesis
      using "1.IH" [OF g [symmetric] refl True a1] g
      by (subst ParsePrototype_args.simps) simp
  next
    case False
    then show ?thesis
      using a1 g by (subst ParsePrototype_args.simps) simp
  qed
qed

lemma acts_ParsePrototype:
  "acts strtod s0 s \<Longrightarrow> acts strtod s0 (snd (ParsePrototype strtod s))"
  by (auto simp: ParsePrototype_def LogErrorP_def Let_def split_def
        intro!: acts_error acts_token acts_ParsePrototype_args)

lemma acts_ParseExtern:
  "acts strtod s0 s \<Longrightarrow> acts strtod s0 (snd (ParseExtern strtod s))"
  by (simp add: ParseExtern_def acts_ParsePrototype acts_token)


lemma pending_fprintf_stderr [simp]:
  "pending (fprintf_stderr Str s) = pending s" "CurTok (fprintf_stderr Str s) = CurTok s"
  by (simp_all add: fprintf_stderr_def pending_def unread_def)

lemma pending_prompt [simp]: "pending (prompt s) = pending s" "CurTok (prompt s) = CurTok s"
  by (simp_all add: prompt_def pending_def unread_def)












lemma pending_less_unread:
  "pending s' < pending s \<Longrightarrow> unread s' < unread s \<or> CurTok s' = EOFToken"
  by (auto simp: pending_def split: if_splits)

section \<open>The lexer and the rest of the state\<close>

text \<open>
  The lexer reads and writes four statics and the input, and nothing else: a change \<open>g\<close>
  of the state that leaves these alone can be made before or after \<open>gettok\<close>.
\<close>

lemma gettok_commute:
  fixes g :: "'d state \<Rightarrow> 'd state"
  assumes lc: "\<And>s. LastChar (g s) = LastChar s" and inp: "\<And>s. stdin (g s) = stdin s"
    and u1: "\<And>s x. g (s\<lparr>stdin := x\<rparr>) = (g s)\<lparr>stdin := x\<rparr>"
    and u2: "\<And>s x. g (s\<lparr>LastChar := x\<rparr>) = (g s)\<lparr>LastChar := x\<rparr>"
    and u3: "\<And>s x. g (s\<lparr>IdentifierStr := x\<rparr>) = (g s)\<lparr>IdentifierStr := x\<rparr>"
    and u4: "\<And>s x. g (s\<lparr>NumVal := x\<rparr>) = (g s)\<lparr>NumVal := x\<rparr>"
  shows "gettok strtod (g s0) = (fst (gettok strtod s0), g (snd (gettok strtod s0)))"
proof (induction strtod s0 rule: gettok.induct)
  case (1 strtod s0)
  define s where "s = gettok_whitespace s0"
  have ws: "gettok_whitespace (g s0) = g s"
    by (simp add: s_def gettok_whitespace_eq lc inp u1 u2)
  have lcs: "LastChar (g s) = LastChar s" by (rule lc)
  have ch: "gettok_char (g t) = (fst (gettok_char t), g (snd (gettok_char t)))" for t
    by (simp add: gettok_char_def getchar_eq Let_def lc inp u1 u2)
  have com: "gettok_comment (g t) = g (gettok_comment t)" for t
    by (simp add: gettok_comment_eq lc inp u1 u2)
  consider (ident) "isalpha (LastChar s)"
    | (num) "\<not> isalpha (LastChar s)" "isdigit (LastChar s) \<or> LastChar s = of_char CHR ''.''"
    | (comment) "\<not> isalpha (LastChar s)" "\<not> (isdigit (LastChar s) \<or> LastChar s = of_char CHR ''.'')"
        "LastChar s = of_char CHR ''#''"
    | (other) "\<not> isalpha (LastChar s)" "\<not> (isdigit (LastChar s) \<or> LastChar s = of_char CHR ''.'')"
        "LastChar s \<noteq> of_char CHR ''#''"
    by blast
  then show ?case
  proof cases
    case ident
    show ?thesis
      apply (subst gettok.simps)
      apply (subst (2 3) gettok.simps)
      using ident
      apply (simp add: ws s_def [symmetric] lcs Let_def gettok_identifier_eq lc inp u1 u2 u3)
      done
  next
    case num
    show ?thesis
      apply (subst gettok.simps)
      apply (subst (2 3) gettok.simps)
      using num
      apply (simp add: ws s_def [symmetric] lcs Let_def gettok_number_eq lc inp u1 u2 u4)
      done
  next
    case comment
    define s1 where "s1 = gettok_comment s"
    have lc1: "LastChar (g s1) = LastChar s1" by (rule lc)
    show ?thesis
    proof (cases "LastChar s1 \<noteq> EOF")
      case True
      have eq: "gettok strtod s0 = gettok strtod s1"
        using comment True by (subst gettok.simps) (simp add: s_def [symmetric] s1_def [symmetric] Let_def)
      have eq': "gettok strtod (g s0) = gettok strtod (g s1)"
        using comment True
        by (subst gettok.simps) (simp add: ws lcs com s1_def [symmetric] lc1 Let_def)
      show ?thesis
        using "1.IH" [OF s_def comment(1) comment(2) comment(3) s1_def True] eq eq' by simp
    next
      case False
      have eq: "gettok strtod s0 = gettok_char s1"
        using comment False by (subst gettok.simps) (simp add: s_def [symmetric] s1_def [symmetric] Let_def)
      have eq': "gettok strtod (g s0) = gettok_char (g s1)"
        using comment False
        by (subst gettok.simps) (simp add: ws lcs com s1_def [symmetric] lc1 Let_def)
      show ?thesis using eq eq' ch by simp
    qed
  next
    case other
    have eq: "gettok strtod s0 = gettok_char s"
      using other by (subst gettok.simps) (simp add: s_def [symmetric] Let_def)
    have eq': "gettok strtod (g s0) = gettok_char (g s)"
      using other by (subst gettok.simps) (simp add: ws lcs Let_def)
    show ?thesis using eq eq' ch by simp
  qed
qed

lemma gettok_BinopPrecedence_update:
  "gettok strtod (s\<lparr>BinopPrecedence := b\<rparr>) =
     (fst (gettok strtod s), (snd (gettok strtod s))\<lparr>BinopPrecedence := b\<rparr>)"
  by (rule gettok_commute [where g = "\<lambda>s. s\<lparr>BinopPrecedence := b\<rparr>"]) simp_all

lemma gettok_stderr_update:
  "gettok strtod (s\<lparr>stderr := b\<rparr>) =
     (fst (gettok strtod s), (snd (gettok strtod s))\<lparr>stderr := b\<rparr>)"
  by (rule gettok_commute [where g = "\<lambda>s. s\<lparr>stderr := b\<rparr>"]) simp_all

text \<open>so the lexer leaves the table and the two output streams as they are.\<close>

lemma gettok_frame [simp]:
  "BinopPrecedence (snd (gettok strtod s)) = BinopPrecedence s"
  "stderr (snd (gettok strtod s)) = stderr s"
proof -
  have "gettok strtod (s\<lparr>BinopPrecedence := BinopPrecedence s\<rparr>) =
     (fst (gettok strtod s), (snd (gettok strtod s))\<lparr>BinopPrecedence := BinopPrecedence s\<rparr>)"
    by (rule gettok_BinopPrecedence_update)
  then have "snd (gettok strtod s) = (snd (gettok strtod s))\<lparr>BinopPrecedence := BinopPrecedence s\<rparr>"
    by simp (metis snd_conv)
  then have "BinopPrecedence (snd (gettok strtod s)) =
      BinopPrecedence ((snd (gettok strtod s))\<lparr>BinopPrecedence := BinopPrecedence s\<rparr>)"
    by (rule arg_cong)
  then show "BinopPrecedence (snd (gettok strtod s)) = BinopPrecedence s" by simp
  have "gettok strtod (s\<lparr>stderr := stderr s\<rparr>) =
     (fst (gettok strtod s), (snd (gettok strtod s))\<lparr>stderr := stderr s\<rparr>)"
    by (rule gettok_stderr_update)
  then have "snd (gettok strtod s) = (snd (gettok strtod s))\<lparr>stderr := stderr s\<rparr>"
    by simp (metis snd_conv)
  then have "stderr (snd (gettok strtod s)) =
      stderr ((snd (gettok strtod s))\<lparr>stderr := stderr s\<rparr>)"
    by (rule arg_cong)
  then show "stderr (snd (gettok strtod s)) = stderr s" by simp
qed

lemma getNextToken_frame [simp]:
  "BinopPrecedence (snd (getNextToken strtod s)) = BinopPrecedence s"
  "stderr (snd (getNextToken strtod s)) = stderr s"
  by (simp_all add: getNextToken_eq)

section \<open>Absent keys and zero entries of the table\<close>

text \<open>
  A \<open>std::map\<close> that is only ever read with \<open>operator[]\<close> cannot tell a key that
  is absent from a key that holds 0. \<open>with_defaults\<close> fills the table of a state with
  the zeros that reading would insert.
\<close>

definition with_defaults :: "'d state \<Rightarrow> 'd state" where
  "with_defaults s =
     s\<lparr>BinopPrecedence := (\<lambda>k. Some (case BinopPrecedence s k of None \<Rightarrow> 0 | Some p \<Rightarrow> p))\<rparr>"

lemma with_defaults_select [simp]:
  "CurTok (with_defaults s) = CurTok s"
  "IdentifierStr (with_defaults s) = IdentifierStr s"
  "NumVal (with_defaults s) = NumVal s"
  "stdin (with_defaults s) = stdin s"
  "LastChar (with_defaults s) = LastChar s"
  "stderr (with_defaults s) = stderr s"
  "stdout (with_defaults s) = stdout s"
  by (simp_all add: with_defaults_def)

lemma getNextToken_with_defaults:
  "getNextToken strtod (with_defaults s) =
     (fst (getNextToken strtod s), with_defaults (snd (getNextToken strtod s)))"
  by (simp add: getNextToken_eq with_defaults_def gettok_BinopPrecedence_update)

lemma snd_getNextToken_with_defaults [simp]:
  "snd (getNextToken strtod (with_defaults s)) = with_defaults (snd (getNextToken strtod s))"
  by (simp add: getNextToken_with_defaults)

lemma GetTokPrecedence_with_defaults [simp]:
  "GetTokPrecedence (with_defaults s) =
     (fst (GetTokPrecedence s), with_defaults (snd (GetTokPrecedence s)))"
  by (auto simp: GetTokPrecedence_def with_defaults_def Let_def fun_eq_iff split: option.splits)

lemma LogError_with_defaults [simp]:
  "LogError Str (with_defaults s) = (None, with_defaults (snd (LogError Str s)))"
  by (simp add: LogError_def with_defaults_def)

lemma with_defaults_stderr_update [simp]:
  "with_defaults (s\<lparr>stderr := x\<rparr>) = (with_defaults s)\<lparr>stderr := x\<rparr>"
  by (simp add: with_defaults_def)

lemma apsnd_fst_snd: "apsnd f x = (fst x, f (snd x))"
  by (cases x) simp

lemma ParseNumberExpr_with_defaults [simp]:
  "ParseNumberExpr strtod (with_defaults s) =
     (fst (ParseNumberExpr strtod s), with_defaults (snd (ParseNumberExpr strtod s)))"
  by (simp add: ParseNumberExpr_def Let_def)

lemma with_defaults_ParseParenExpr:
  assumes expr: "\<forall>s. ParseExpression strtod n (with_defaults s) = map_option (apsnd with_defaults) (ParseExpression strtod n s)"
  shows "ParseParenExpr strtod (Suc n) (with_defaults s) =
    map_option (apsnd with_defaults) (ParseParenExpr strtod (Suc n) s)"
  by (auto simp: ParseParenExpr.simps expr [rule_format] Let_def split_def LogError_def apsnd_fst_snd
        split: option.splits if_splits)

lemma with_defaults_ParseIdentifierExpr:
  assumes args: "\<forall>a s. ParseIdentifierExpr_args strtod n a (with_defaults s) = map_option (apsnd with_defaults) (ParseIdentifierExpr_args strtod n a s)"
  shows "ParseIdentifierExpr strtod (Suc n) (with_defaults s) =
    map_option (apsnd with_defaults) (ParseIdentifierExpr strtod (Suc n) s)"
  by (auto simp: ParseIdentifierExpr.simps args [rule_format] Let_def split_def LogError_def apsnd_fst_snd
        split: option.splits if_splits)

lemma with_defaults_ParseIdentifierExpr_args:
  assumes args: "\<forall>a s. ParseIdentifierExpr_args strtod n a (with_defaults s) = map_option (apsnd with_defaults) (ParseIdentifierExpr_args strtod n a s)"
    and expr: "\<forall>s. ParseExpression strtod n (with_defaults s) = map_option (apsnd with_defaults) (ParseExpression strtod n s)"
  shows "ParseIdentifierExpr_args strtod (Suc n) a (with_defaults s) =
    map_option (apsnd with_defaults) (ParseIdentifierExpr_args strtod (Suc n) a s)"
  by (auto simp: ParseIdentifierExpr_args.simps args [rule_format] expr [rule_format] Let_def split_def LogError_def apsnd_fst_snd
        split: option.splits if_splits)

lemma with_defaults_ParsePrimary:
  assumes paren: "\<forall>s. ParseParenExpr strtod n (with_defaults s) = map_option (apsnd with_defaults) (ParseParenExpr strtod n s)"
    and ident: "\<forall>s. ParseIdentifierExpr strtod n (with_defaults s) = map_option (apsnd with_defaults) (ParseIdentifierExpr strtod n s)"
  shows "ParsePrimary strtod (Suc n) (with_defaults s) =
    map_option (apsnd with_defaults) (ParsePrimary strtod (Suc n) s)"
  by (auto simp: ParsePrimary.simps paren [rule_format] ident [rule_format] Let_def split_def LogError_def apsnd_fst_snd
        split: option.splits if_splits)

lemma with_defaults_ParseBinOpRHS:
  assumes primary: "\<forall>s. ParsePrimary strtod n (with_defaults s) = map_option (apsnd with_defaults) (ParsePrimary strtod n s)"
    and binop: "\<forall>p l s. ParseBinOpRHS strtod n p l (with_defaults s) = map_option (apsnd with_defaults) (ParseBinOpRHS strtod n p l s)"
  shows "ParseBinOpRHS strtod (Suc n) p l (with_defaults s) =
    map_option (apsnd with_defaults) (ParseBinOpRHS strtod (Suc n) p l s)"
  by (auto simp: ParseBinOpRHS.simps primary [rule_format] binop [rule_format] Let_def split_def LogError_def apsnd_fst_snd
        split: option.splits if_splits)

lemma with_defaults_ParseExpression:
  assumes primary: "\<forall>s. ParsePrimary strtod n (with_defaults s) = map_option (apsnd with_defaults) (ParsePrimary strtod n s)"
    and binop: "\<forall>p l s. ParseBinOpRHS strtod n p l (with_defaults s) = map_option (apsnd with_defaults) (ParseBinOpRHS strtod n p l s)"
  shows "ParseExpression strtod (Suc n) (with_defaults s) =
    map_option (apsnd with_defaults) (ParseExpression strtod (Suc n) s)"
  by (auto simp: ParseExpression.simps primary [rule_format] binop [rule_format] Let_def split_def LogError_def apsnd_fst_snd
        split: option.splits if_splits)

lemma parser_with_defaults:
  "(\<forall>s. ParseParenExpr strtod n (with_defaults s) = map_option (apsnd with_defaults) (ParseParenExpr strtod n s)) \<and>
   (\<forall>s. ParseIdentifierExpr strtod n (with_defaults s) = map_option (apsnd with_defaults) (ParseIdentifierExpr strtod n s)) \<and>
   (\<forall>a s. ParseIdentifierExpr_args strtod n a (with_defaults s) = map_option (apsnd with_defaults) (ParseIdentifierExpr_args strtod n a s)) \<and>
   (\<forall>s. ParsePrimary strtod n (with_defaults s) = map_option (apsnd with_defaults) (ParsePrimary strtod n s)) \<and>
   (\<forall>p l s. ParseBinOpRHS strtod n p l (with_defaults s) = map_option (apsnd with_defaults) (ParseBinOpRHS strtod n p l s)) \<and>
   (\<forall>s. ParseExpression strtod n (with_defaults s) = map_option (apsnd with_defaults) (ParseExpression strtod n s))"
proof (induction n)
  case 0
  show ?case
    by (simp add: ParseParenExpr.simps ParseIdentifierExpr.simps ParseIdentifierExpr_args.simps
          ParsePrimary.simps ParseBinOpRHS.simps ParseExpression.simps)
next
  case (Suc n)
  show ?case
    by (intro conjI allI)
       (rule with_defaults_ParseParenExpr [OF Suc.IH [THEN conjunct2, THEN conjunct2, THEN conjunct2, THEN conjunct2, THEN conjunct2]],
        rule with_defaults_ParseIdentifierExpr [OF Suc.IH [THEN conjunct2, THEN conjunct2, THEN conjunct1]],
        rule with_defaults_ParseIdentifierExpr_args [OF Suc.IH [THEN conjunct2, THEN conjunct2, THEN conjunct1] Suc.IH [THEN conjunct2, THEN conjunct2, THEN conjunct2, THEN conjunct2, THEN conjunct2]],
        rule with_defaults_ParsePrimary [OF Suc.IH [THEN conjunct1] Suc.IH [THEN conjunct2, THEN conjunct1]],
        rule with_defaults_ParseBinOpRHS [OF Suc.IH [THEN conjunct2, THEN conjunct2, THEN conjunct2, THEN conjunct1] Suc.IH [THEN conjunct2, THEN conjunct2, THEN conjunct2, THEN conjunct2, THEN conjunct1]],
        rule with_defaults_ParseExpression [OF Suc.IH [THEN conjunct2, THEN conjunct2, THEN conjunct2, THEN conjunct1] Suc.IH [THEN conjunct2, THEN conjunct2, THEN conjunct2, THEN conjunct2, THEN conjunct1]])
qed

lemmas ParseExpression_with_defaults =
  parser_with_defaults [THEN conjunct2, THEN conjunct2, THEN conjunct2, THEN conjunct2, THEN conjunct2,
    rule_format]

lemma with_defaults_insert_zero:
  "BinopPrecedence s k = None \<Longrightarrow>
   with_defaults (s\<lparr>BinopPrecedence := (BinopPrecedence s)(k \<mapsto> 0)\<rparr>) = with_defaults s"
  by (auto simp: with_defaults_def fun_eq_iff)


section \<open>The operators of a parsed tree\<close>

text \<open>
  The characters that \<open>GetTokPrecedence\<close> accepts as binary operators in a state, and
  the operators of the \<open>BinaryExprAST\<close> nodes of a tree.
\<close>

definition is_operator :: "'d state \<Rightarrow> char \<Rightarrow> bool" where
  "is_operator s c = (case BinopPrecedence s c of None \<Rightarrow> False | Some p \<Rightarrow> 0 < p)"

fun operators :: "'d ExprAST \<Rightarrow> char list" where
  "operators (NumberExprAST v) = []"
| "operators (VariableExprAST x) = []"
| "operators (BinaryExprAST c l r) = c # operators l @ operators r"
| "operators (CallExprAST f args) = concat (map operators args)"

lemma is_operator_step [simp]:
  "is_operator (snd (getNextToken strtod s)) = is_operator s"
  "is_operator (snd (GetTokPrecedence s)) = is_operator s"
  "is_operator (snd (LogError Str s)) = is_operator s"
  by (auto simp: is_operator_def fun_eq_iff GetTokPrecedence_def Let_def split: option.splits)

lemma acts_is_operator: "acts strtod s s' \<Longrightarrow> is_operator s' = is_operator s"
  by (induction rule: acts.induct) simp_all

lemma GetTokPrecedence_operator:
  "GetTokPrecedence s = (TokPrec, s1) \<Longrightarrow> 0 \<le> TokPrec \<Longrightarrow>
   is_operator s (char_of (CurTok s)) \<and> CurTok s1 = CurTok s \<and> is_operator s1 = is_operator s"
  by (auto simp: is_operator_def fun_eq_iff GetTokPrecedence_def Let_def
        split: option.splits if_splits)

lemma GetTokPrecedence_is_operator:
  "GetTokPrecedence s = (TokPrec, s1) \<Longrightarrow> is_operator s1 = is_operator s"
  using is_operator_step(2) [of s] by simp

lemma operators_ParseParenExpr:
  assumes expr: "\<forall>s r s'. ParseExpression strtod n s = Some (r, s') \<longrightarrow>
      is_operator s' = is_operator s \<and>
      (\<forall>e. r = Some e \<longrightarrow> (\<forall>c\<in>set (operators e). is_operator s c))"
  shows "\<forall>s r s'. ParseParenExpr strtod (Suc n) s = Some (r, s') \<longrightarrow>
      is_operator s' = is_operator s \<and>
      (\<forall>e. r = Some e \<longrightarrow> (\<forall>c\<in>set (operators e). is_operator s c))"
  by (auto simp: ParseParenExpr.simps Let_def ParseNumberExpr_def
        split: option.splits if_splits
        dest!: expr [rule_format])

lemma operators_ParseIdentifierExpr:
  assumes args: "\<forall>a s r s'. ParseIdentifierExpr_args strtod n a s = Some (r, s') \<longrightarrow>
      is_operator s' = is_operator s \<and>
      ((\<forall>x\<in>set a. \<forall>c\<in>set (operators x). is_operator s c) \<longrightarrow>
       (\<forall>as. r = Some as \<longrightarrow> (\<forall>x\<in>set as. \<forall>c\<in>set (operators x). is_operator s c)))"
  shows "\<forall>s r s'. ParseIdentifierExpr strtod (Suc n) s = Some (r, s') \<longrightarrow>
      is_operator s' = is_operator s \<and>
      (\<forall>e. r = Some e \<longrightarrow> (\<forall>c\<in>set (operators e). is_operator s c))"
  by (auto simp: ParseIdentifierExpr.simps Let_def ParseNumberExpr_def
        split: option.splits if_splits
        dest!: args [rule_format])

lemma operators_ParseIdentifierExpr_args:
  assumes args: "\<forall>a s r s'. ParseIdentifierExpr_args strtod n a s = Some (r, s') \<longrightarrow>
      is_operator s' = is_operator s \<and>
      ((\<forall>x\<in>set a. \<forall>c\<in>set (operators x). is_operator s c) \<longrightarrow>
       (\<forall>as. r = Some as \<longrightarrow> (\<forall>x\<in>set as. \<forall>c\<in>set (operators x). is_operator s c)))"
    and expr: "\<forall>s r s'. ParseExpression strtod n s = Some (r, s') \<longrightarrow>
      is_operator s' = is_operator s \<and>
      (\<forall>e. r = Some e \<longrightarrow> (\<forall>c\<in>set (operators e). is_operator s c))"
  shows "\<forall>a s r s'. ParseIdentifierExpr_args strtod (Suc n) a s = Some (r, s') \<longrightarrow>
      is_operator s' = is_operator s \<and>
      ((\<forall>x\<in>set a. \<forall>c\<in>set (operators x). is_operator s c) \<longrightarrow>
       (\<forall>as. r = Some as \<longrightarrow> (\<forall>x\<in>set as. \<forall>c\<in>set (operators x). is_operator s c)))"
  by (auto simp: ParseIdentifierExpr_args.simps Let_def ParseNumberExpr_def
        split: option.splits if_splits
        dest!: args [rule_format] expr [rule_format])

lemma operators_ParsePrimary:
  assumes paren: "\<forall>s r s'. ParseParenExpr strtod n s = Some (r, s') \<longrightarrow>
      is_operator s' = is_operator s \<and>
      (\<forall>e. r = Some e \<longrightarrow> (\<forall>c\<in>set (operators e). is_operator s c))"
    and ident: "\<forall>s r s'. ParseIdentifierExpr strtod n s = Some (r, s') \<longrightarrow>
      is_operator s' = is_operator s \<and>
      (\<forall>e. r = Some e \<longrightarrow> (\<forall>c\<in>set (operators e). is_operator s c))"
  shows "\<forall>s r s'. ParsePrimary strtod (Suc n) s = Some (r, s') \<longrightarrow>
      is_operator s' = is_operator s \<and>
      (\<forall>e. r = Some e \<longrightarrow> (\<forall>c\<in>set (operators e). is_operator s c))"
  by (auto simp: ParsePrimary.simps Let_def ParseNumberExpr_def
        split: option.splits if_splits
        dest!: paren [rule_format] ident [rule_format])

lemma operators_ParseBinOpRHS:
  assumes primary: "\<forall>s r s'. ParsePrimary strtod n s = Some (r, s') \<longrightarrow>
      is_operator s' = is_operator s \<and>
      (\<forall>e. r = Some e \<longrightarrow> (\<forall>c\<in>set (operators e). is_operator s c))"
    and binop: "\<forall>p l s r s'. ParseBinOpRHS strtod n p l s = Some (r, s') \<longrightarrow>
      is_operator s' = is_operator s \<and>
      (0 \<le> p \<longrightarrow> (\<forall>c\<in>set (operators l). is_operator s c) \<longrightarrow>
       (\<forall>e. r = Some e \<longrightarrow> (\<forall>c\<in>set (operators e). is_operator s c)))"
  shows "\<forall>p l s r s'. ParseBinOpRHS strtod (Suc n) p l s = Some (r, s') \<longrightarrow>
      is_operator s' = is_operator s \<and>
      (0 \<le> p \<longrightarrow> (\<forall>c\<in>set (operators l). is_operator s c) \<longrightarrow>
       (\<forall>e. r = Some e \<longrightarrow> (\<forall>c\<in>set (operators e). is_operator s c)))"
proof (intro allI impI)
  fix p l s r s'
  assume run: "ParseBinOpRHS strtod (Suc n) p l s = Some (r, s')"
  obtain TokPrec s1 where g: "GetTokPrecedence s = (TokPrec, s1)" by (cases "GetTokPrecedence s")
  have i1: "is_operator s1 = is_operator s" using g by (rule GetTokPrecedence_is_operator)
  define s2 where "s2 = snd (getNextToken strtod s1)"
  have i2: "is_operator s2 = is_operator s" by (simp add: s2_def i1)
  show "is_operator s' = is_operator s \<and>
      (0 \<le> p \<longrightarrow> (\<forall>c\<in>set (operators l). is_operator s c) \<longrightarrow>
       (\<forall>e. r = Some e \<longrightarrow> (\<forall>c\<in>set (operators e). is_operator s c)))"
  proof (cases "TokPrec < p")
    case True
    then show ?thesis using run i1 by (auto simp: ParseBinOpRHS.simps g)
  next
    case False
    have op: "0 \<le> p \<Longrightarrow> is_operator s (char_of (CurTok s1))"
      using GetTokPrecedence_operator [OF g] False by auto
    from run False obtain rp s3 where p1: "ParsePrimary strtod n s2 = Some (rp, s3)"
      by (auto simp: ParseBinOpRHS.simps g s2_def [symmetric] Let_def split: option.splits)
    note P = primary [rule_format, OF p1]
    have i3: "is_operator s3 = is_operator s" using P i2 by simp
    show ?thesis
    proof (cases rp)
      case None
      then show ?thesis
        using run False i3 by (simp add: ParseBinOpRHS.simps g s2_def [symmetric] Let_def p1)
    next
      case (Some RHS)
      have oR: "\<forall>c\<in>set (operators RHS). is_operator s c" using P Some i2 by simp
      obtain NextPrec s4 where g2: "GetTokPrecedence s3 = (NextPrec, s4)"
        by (cases "GetTokPrecedence s3")
      have i4: "is_operator s4 = is_operator s"
        using GetTokPrecedence_is_operator [OF g2] i3 by simp
      show ?thesis
      proof (cases "TokPrec < NextPrec")
        case True
        from run False True obtain r1 s5 where
          b1: "ParseBinOpRHS strtod n (TokPrec + 1) RHS s4 = Some (r1, s5)"
          by (auto simp: ParseBinOpRHS.simps g s2_def [symmetric] Let_def p1 Some g2
                split: option.splits)
        note B1 = binop [rule_format, OF b1]
        have i5: "is_operator s5 = is_operator s" using B1 i4 by simp
        show ?thesis
        proof (cases r1)
          case None
          then show ?thesis
            using run False True i5
            by (simp add: ParseBinOpRHS.simps g s2_def [symmetric] Let_def p1 Some g2 b1)
        next
          case (Some RHS1)
          have b2: "ParseBinOpRHS strtod n p (BinaryExprAST (char_of (CurTok s1)) l RHS1) s5 =
              Some (r, s')"
            using run False True
            by (simp add: ParseBinOpRHS.simps g s2_def [symmetric] Let_def p1 \<open>rp = Some RHS\<close>
                  g2 b1 Some)
          note B2 = binop [rule_format, OF b2]
          have "0 \<le> TokPrec + 1" if "0 \<le> p" using that False by simp
          then have oR1: "0 \<le> p \<Longrightarrow> \<forall>c\<in>set (operators RHS1). is_operator s c"
            using B1 Some oR i4 by simp
          show ?thesis using B2 i5 op oR1 by auto
        qed
      next
        case False2: False
        have b2: "ParseBinOpRHS strtod n p (BinaryExprAST (char_of (CurTok s1)) l RHS) s4 =
            Some (r, s')"
          using run False False2
          by (simp add: ParseBinOpRHS.simps g s2_def [symmetric] Let_def p1 Some g2)
        note B2 = binop [rule_format, OF b2]
        show ?thesis using B2 i4 op oR by auto
      qed
    qed
  qed
qed

lemma operators_ParseExpression:
  assumes primary: "\<forall>s r s'. ParsePrimary strtod n s = Some (r, s') \<longrightarrow>
      is_operator s' = is_operator s \<and>
      (\<forall>e. r = Some e \<longrightarrow> (\<forall>c\<in>set (operators e). is_operator s c))"
    and binop: "\<forall>p l s r s'. ParseBinOpRHS strtod n p l s = Some (r, s') \<longrightarrow>
      is_operator s' = is_operator s \<and>
      (0 \<le> p \<longrightarrow> (\<forall>c\<in>set (operators l). is_operator s c) \<longrightarrow>
       (\<forall>e. r = Some e \<longrightarrow> (\<forall>c\<in>set (operators e). is_operator s c)))"
  shows "\<forall>s r s'. ParseExpression strtod (Suc n) s = Some (r, s') \<longrightarrow>
      is_operator s' = is_operator s \<and>
      (\<forall>e. r = Some e \<longrightarrow> (\<forall>c\<in>set (operators e). is_operator s c))"
  by (auto simp: ParseExpression.simps Let_def ParseNumberExpr_def
        split: option.splits if_splits
        dest!: primary [rule_format] binop [rule_format])

lemma parser_operators:
  "(\<forall>s r s'. ParseParenExpr strtod n s = Some (r, s') \<longrightarrow>
      is_operator s' = is_operator s \<and>
      (\<forall>e. r = Some e \<longrightarrow> (\<forall>c\<in>set (operators e). is_operator s c))) \<and>
   (\<forall>s r s'. ParseIdentifierExpr strtod n s = Some (r, s') \<longrightarrow>
      is_operator s' = is_operator s \<and>
      (\<forall>e. r = Some e \<longrightarrow> (\<forall>c\<in>set (operators e). is_operator s c))) \<and>
   (\<forall>a s r s'. ParseIdentifierExpr_args strtod n a s = Some (r, s') \<longrightarrow>
      is_operator s' = is_operator s \<and>
      ((\<forall>x\<in>set a. \<forall>c\<in>set (operators x). is_operator s c) \<longrightarrow>
       (\<forall>as. r = Some as \<longrightarrow> (\<forall>x\<in>set as. \<forall>c\<in>set (operators x). is_operator s c)))) \<and>
   (\<forall>s r s'. ParsePrimary strtod n s = Some (r, s') \<longrightarrow>
      is_operator s' = is_operator s \<and>
      (\<forall>e. r = Some e \<longrightarrow> (\<forall>c\<in>set (operators e). is_operator s c))) \<and>
   (\<forall>p l s r s'. ParseBinOpRHS strtod n p l s = Some (r, s') \<longrightarrow>
      is_operator s' = is_operator s \<and>
      (0 \<le> p \<longrightarrow> (\<forall>c\<in>set (operators l). is_operator s c) \<longrightarrow>
       (\<forall>e. r = Some e \<longrightarrow> (\<forall>c\<in>set (operators e). is_operator s c)))) \<and>
   (\<forall>s r s'. ParseExpression strtod n s = Some (r, s') \<longrightarrow>
      is_operator s' = is_operator s \<and>
      (\<forall>e. r = Some e \<longrightarrow> (\<forall>c\<in>set (operators e). is_operator s c)))"
proof (induction n)
  case 0
  show ?case
    by (simp add: ParseParenExpr.simps ParseIdentifierExpr.simps ParseIdentifierExpr_args.simps
          ParsePrimary.simps ParseBinOpRHS.simps ParseExpression.simps)
next
  case (Suc n)
  show ?case
    by (intro conjI)
       (rule operators_ParseParenExpr [OF Suc.IH [THEN conjunct2, THEN conjunct2, THEN conjunct2, THEN conjunct2, THEN conjunct2]],
        rule operators_ParseIdentifierExpr [OF Suc.IH [THEN conjunct2, THEN conjunct2, THEN conjunct1]],
        rule operators_ParseIdentifierExpr_args [OF Suc.IH [THEN conjunct2, THEN conjunct2, THEN conjunct1] Suc.IH [THEN conjunct2, THEN conjunct2, THEN conjunct2, THEN conjunct2, THEN conjunct2]],
        rule operators_ParsePrimary [OF Suc.IH [THEN conjunct1] Suc.IH [THEN conjunct2, THEN conjunct1]],
        rule operators_ParseBinOpRHS [OF Suc.IH [THEN conjunct2, THEN conjunct2, THEN conjunct2, THEN conjunct1] Suc.IH [THEN conjunct2, THEN conjunct2, THEN conjunct2, THEN conjunct2, THEN conjunct1]],
        rule operators_ParseExpression [OF Suc.IH [THEN conjunct2, THEN conjunct2, THEN conjunct2, THEN conjunct1] Suc.IH [THEN conjunct2, THEN conjunct2, THEN conjunct2, THEN conjunct2, THEN conjunct1]])
qed

lemmas ParseExpression_operators =
  parser_operators [THEN conjunct2, THEN conjunct2, THEN conjunct2, THEN conjunct2, THEN conjunct2,
    rule_format]
lemmas ParseBinOpRHS_operators =
  parser_operators [THEN conjunct2, THEN conjunct2, THEN conjunct2, THEN conjunct2, THEN conjunct1,
    rule_format]

section \<open>Errors and standard error\<close>

text \<open>
  A parse that fails has written one line to standard error, the one of the failure
  that ended it; a parse that returns a tree has written none.
\<close>

lemma GetTokPrecedence_pair_iff:
  "GetTokPrecedence s = (a, b) \<longleftrightarrow> a = fst (GetTokPrecedence s) \<and> b = snd (GetTokPrecedence s)"
  by auto

lemma stderr_LogError [simp]:
  "stderr (snd (LogError Str s)) = stderr s @ [''Error: '' @ Str @ ''\<newline>'']"
  by (simp add: LogError_def)

lemma stderr_ParseParenExpr:
  assumes expr: "\<forall>s r s'. ParseExpression strtod n s = Some (r, s') \<longrightarrow>
      (if r = None then \<exists>m. stderr s' = stderr s @ [m] else stderr s' = stderr s)"
  shows "\<forall>s r s'. ParseParenExpr strtod (Suc n) s = Some (r, s') \<longrightarrow>
      (if r = None then \<exists>m. stderr s' = stderr s @ [m] else stderr s' = stderr s)"
  by (auto simp: ParseParenExpr.simps Let_def ParseNumberExpr_def GetTokPrecedence_pair_iff
        split: option.splits if_splits prod.splits
        dest!: expr [rule_format])

lemma stderr_ParseIdentifierExpr:
  assumes args: "\<forall>a s r s'. ParseIdentifierExpr_args strtod n a s = Some (r, s') \<longrightarrow>
      (if r = None then \<exists>m. stderr s' = stderr s @ [m] else stderr s' = stderr s)"
  shows "\<forall>s r s'. ParseIdentifierExpr strtod (Suc n) s = Some (r, s') \<longrightarrow>
      (if r = None then \<exists>m. stderr s' = stderr s @ [m] else stderr s' = stderr s)"
  by (auto simp: ParseIdentifierExpr.simps Let_def ParseNumberExpr_def GetTokPrecedence_pair_iff
        split: option.splits if_splits prod.splits
        dest!: args [rule_format])

lemma stderr_ParseIdentifierExpr_args:
  assumes args: "\<forall>a s r s'. ParseIdentifierExpr_args strtod n a s = Some (r, s') \<longrightarrow>
      (if r = None then \<exists>m. stderr s' = stderr s @ [m] else stderr s' = stderr s)"
    and expr: "\<forall>s r s'. ParseExpression strtod n s = Some (r, s') \<longrightarrow>
      (if r = None then \<exists>m. stderr s' = stderr s @ [m] else stderr s' = stderr s)"
  shows "\<forall>a s r s'. ParseIdentifierExpr_args strtod (Suc n) a s = Some (r, s') \<longrightarrow>
      (if r = None then \<exists>m. stderr s' = stderr s @ [m] else stderr s' = stderr s)"
  by (auto simp: ParseIdentifierExpr_args.simps Let_def ParseNumberExpr_def GetTokPrecedence_pair_iff
        split: option.splits if_splits prod.splits
        dest!: args [rule_format] expr [rule_format])

lemma stderr_ParsePrimary:
  assumes paren: "\<forall>s r s'. ParseParenExpr strtod n s = Some (r, s') \<longrightarrow>
      (if r = None then \<exists>m. stderr s' = stderr s @ [m] else stderr s' = stderr s)"
    and ident: "\<forall>s r s'. ParseIdentifierExpr strtod n s = Some (r, s') \<longrightarrow>
      (if r = None then \<exists>m. stderr s' = stderr s @ [m] else stderr s' = stderr s)"
  shows "\<forall>s r s'. ParsePrimary strtod (Suc n) s = Some (r, s') \<longrightarrow>
      (if r = None then \<exists>m. stderr s' = stderr s @ [m] else stderr s' = stderr s)"
  by (auto simp: ParsePrimary.simps Let_def ParseNumberExpr_def GetTokPrecedence_pair_iff
        split: option.splits if_splits prod.splits
        dest!: paren [rule_format] ident [rule_format])

lemma stderr_ParseBinOpRHS:
  assumes primary: "\<forall>s r s'. ParsePrimary strtod n s = Some (r, s') \<longrightarrow>
      (if r = None then \<exists>m. stderr s' = stderr s @ [m] else stderr s' = stderr s)"
    and binop: "\<forall>p l s r s'. ParseBinOpRHS strtod n p l s = Some (r, s') \<longrightarrow>
      (if r = None then \<exists>m. stderr s' = stderr s @ [m] else stderr s' = stderr s)"
  shows "\<forall>p l s r s'. ParseBinOpRHS strtod (Suc n) p l s = Some (r, s') \<longrightarrow>
      (if r = None then \<exists>m. stderr s' = stderr s @ [m] else stderr s' = stderr s)"
  by (auto simp: ParseBinOpRHS.simps Let_def ParseNumberExpr_def GetTokPrecedence_pair_iff
        split: option.splits if_splits prod.splits
        dest!: primary [rule_format] binop [rule_format])

lemma stderr_ParseExpression:
  assumes primary: "\<forall>s r s'. ParsePrimary strtod n s = Some (r, s') \<longrightarrow>
      (if r = None then \<exists>m. stderr s' = stderr s @ [m] else stderr s' = stderr s)"
    and binop: "\<forall>p l s r s'. ParseBinOpRHS strtod n p l s = Some (r, s') \<longrightarrow>
      (if r = None then \<exists>m. stderr s' = stderr s @ [m] else stderr s' = stderr s)"
  shows "\<forall>s r s'. ParseExpression strtod (Suc n) s = Some (r, s') \<longrightarrow>
      (if r = None then \<exists>m. stderr s' = stderr s @ [m] else stderr s' = stderr s)"
  by (auto simp: ParseExpression.simps Let_def ParseNumberExpr_def GetTokPrecedence_pair_iff
        split: option.splits if_splits prod.splits
        dest!: primary [rule_format] binop [rule_format])

lemma parser_stderr:
  "(\<forall>s r s'. ParseParenExpr strtod n s = Some (r, s') \<longrightarrow>
      (if r = None then \<exists>m. stderr s' = stderr s @ [m] else stderr s' = stderr s)) \<and>
   (\<forall>s r s'. ParseIdentifierExpr strtod n s = Some (r, s') \<longrightarrow>
      (if r = None then \<exists>m. stderr s' = stderr s @ [m] else stderr s' = stderr s)) \<and>
   (\<forall>a s r s'. ParseIdentifierExpr_args strtod n a s = Some (r, s') \<longrightarrow>
      (if r = None then \<exists>m. stderr s' = stderr s @ [m] else stderr s' = stderr s)) \<and>
   (\<forall>s r s'. ParsePrimary strtod n s = Some (r, s') \<longrightarrow>
      (if r = None then \<exists>m. stderr s' = stderr s @ [m] else stderr s' = stderr s)) \<and>
   (\<forall>p l s r s'. ParseBinOpRHS strtod n p l s = Some (r, s') \<longrightarrow>
      (if r = None then \<exists>m. stderr s' = stderr s @ [m] else stderr s' = stderr s)) \<and>
   (\<forall>s r s'. ParseExpression strtod n s = Some (r, s') \<longrightarrow>
      (if r = None then \<exists>m. stderr s' = stderr s @ [m] else stderr s' = stderr s))"
proof (induction n)
  case 0
  show ?case
    by (simp add: ParseParenExpr.simps ParseIdentifierExpr.simps ParseIdentifierExpr_args.simps
          ParsePrimary.simps ParseBinOpRHS.simps ParseExpression.simps)
next
  case (Suc n)
  show ?case
    by (intro conjI)
       (rule stderr_ParseParenExpr [OF Suc.IH [THEN conjunct2, THEN conjunct2, THEN conjunct2, THEN conjunct2, THEN conjunct2]],
        rule stderr_ParseIdentifierExpr [OF Suc.IH [THEN conjunct2, THEN conjunct2, THEN conjunct1]],
        rule stderr_ParseIdentifierExpr_args [OF Suc.IH [THEN conjunct2, THEN conjunct2, THEN conjunct1] Suc.IH [THEN conjunct2, THEN conjunct2, THEN conjunct2, THEN conjunct2, THEN conjunct2]],
        rule stderr_ParsePrimary [OF Suc.IH [THEN conjunct1] Suc.IH [THEN conjunct2, THEN conjunct1]],
        rule stderr_ParseBinOpRHS [OF Suc.IH [THEN conjunct2, THEN conjunct2, THEN conjunct2, THEN conjunct1] Suc.IH [THEN conjunct2, THEN conjunct2, THEN conjunct2, THEN conjunct2, THEN conjunct1]],
        rule stderr_ParseExpression [OF Suc.IH [THEN conjunct2, THEN conjunct2, THEN conjunct2, THEN conjunct1] Suc.IH [THEN conjunct2, THEN conjunct2, THEN conjunct2, THEN conjunct2, THEN conjunct1]])
qed

lemmas ParseExpression_stderr =
  parser_stderr [THEN conjunct2, THEN conjunct2, THEN conjunct2, THEN conjunct2, THEN conjunct2,
    rule_format]


section \<open>The left operand in the tree of \<open>ParseBinOpRHS\<close>\<close>

text \<open>
  \<open>ParseBinOpRHS\<close> returns its left operand or a tree that contains it: the tree
  it returns is never smaller.
\<close>

lemma ParseBinOpRHS_size:
  "ParseBinOpRHS strtod n p l s = Some (Some e, s') \<Longrightarrow> size l \<le> size e"
proof (induction n arbitrary: p l s e s')
  case 0
  then show ?case by (simp add: ParseBinOpRHS.simps)
next
  case (Suc n)
  show ?case
  proof (cases "fst (GetTokPrecedence s) < p")
    case True
    then show ?thesis using Suc.prems by (simp add: ParseBinOpRHS.simps split_def)
  next
    case False
    obtain b l' s'' where "ParseBinOpRHS strtod n p (BinaryExprAST b l l') s'' = Some (Some e, s')"
      using Suc.prems False
      by (auto simp: ParseBinOpRHS.simps split_def Let_def split: option.splits if_splits)
    then have "size (BinaryExprAST b l l') \<le> size e" by (rule Suc.IH)
    then show ?thesis by simp
  qed
qed

lemma ParseBinOpRHS_continues:
  assumes "\<not> fst (GetTokPrecedence s) < p"
  shows "ParseBinOpRHS strtod n p l s \<noteq> Some (Some l, s')"
proof (cases n)
  case 0
  then show ?thesis by (simp add: ParseBinOpRHS.simps)
next
  case (Suc m)
  show ?thesis
  proof
    assume a: "ParseBinOpRHS strtod n p l s = Some (Some l, s')"
    obtain b l' s'' where "ParseBinOpRHS strtod m p (BinaryExprAST b l l') s'' = Some (Some l, s')"
      using a assms
      by (auto simp: Suc ParseBinOpRHS.simps split_def Let_def split: option.splits if_splits)
    then have "size (BinaryExprAST b l l') \<le> size l" by (rule ParseBinOpRHS_size)
    then show False by simp
  qed
qed


section \<open>Chains of operators\<close>

text \<open>
  The characters that \<open>gettok\<close> returns as tokens of their own: ASCII, and neither
  white space, a letter, a digit, a dot nor the start of a comment.
\<close>

definition punctuation :: "char \<Rightarrow> bool" where
  "punctuation c \<longleftrightarrow>
     isascii (of_char c) \<and> \<not> isspace (of_char c) \<and> \<not> isalnum (of_char c) \<and>
     c \<noteq> CHR ''.'' \<and> c \<noteq> CHR ''#''"

text \<open>A text that the lexer reads as one number: digits and dots, and not empty.\<close>

definition number_text :: "string \<Rightarrow> bool" where
  "number_text num \<longleftrightarrow> num \<noteq> [] \<and> (\<forall>c\<in>set num. number_char c)"

text \<open>What \<open>GetTokPrecedence\<close> answers for a character, given the table of a state.\<close>

definition precedence :: "'d state \<Rightarrow> char \<Rightarrow> int" where
  "precedence s c =
     (case BinopPrecedence s c of None \<Rightarrow> - 1 | Some p \<Rightarrow> if p \<le> 0 then - 1 else p)"

text \<open>
  A chain is a list of operators, each with the number that follows it. Its text, and
  the tree that applies the operators from left to right to a first operand.
\<close>

definition chain_text :: "(char \<times> string) list \<Rightarrow> string" where
  "chain_text xs = concat (map (\<lambda>(b, num). b # num) xs)"

definition chain_tree :: "(string \<Rightarrow> 'd) \<Rightarrow> 'd ExprAST \<Rightarrow> (char \<times> string) list \<Rightarrow> 'd ExprAST" where
  "chain_tree strtod LHS xs =
     foldl (\<lambda>l (b, num). BinaryExprAST b l (NumberExprAST (strtod num))) LHS xs"

text \<open>
  The parser stands at a text whose first token is one character or the end of the
  input: that token is the current one, and the lexer holds the character after it.
\<close>

definition stands_at :: "'d state \<Rightarrow> string \<Rightarrow> bool" where
  "stands_at s t \<longleftrightarrow> CurTok s = peek t \<and> LastChar s = peek (tl t) \<and> stdin s = tl (tl t)"

lemma chain_text_simps [simp]:
  "chain_text [] = []"
  "chain_text ((b, num) # xs) = b # num @ chain_text xs"
  "chain_text (xs @ ys) = chain_text xs @ chain_text ys"
  by (simp_all add: chain_text_def)

lemma chain_tree_simps [simp]:
  "chain_tree strtod LHS [] = LHS"
  "chain_tree strtod LHS ((b, num) # xs) =
     chain_tree strtod (BinaryExprAST b LHS (NumberExprAST (strtod num))) xs"
  by (simp_all add: chain_tree_def)

lemma punctuation_not_number: "punctuation c \<Longrightarrow> \<not> number_char c"
  by (auto simp: punctuation_def isalnum_def)

lemma gettok_punctuation:
  assumes "LastChar s = of_char c" and "punctuation c"
  shows "gettok strtod s = (of_char c, s\<lparr>stdin := tl (stdin s), LastChar := peek (stdin s)\<rparr>)"
proof -
  have "(of_char c :: int) \<noteq> of_char CHR ''.''" "(of_char c :: int) \<noteq> of_char CHR ''#''"
    using assms(2) by (simp_all only: of_char_eq_iff punctuation_def not_False_eq_True)
  then show ?thesis
    using assms
    by (subst gettok.simps)
       (simp add: punctuation_def isalnum_def gettok_whitespace_eq gettok_char_def getchar_eq Let_def)
qed

lemma gettok_at_EOF:
  assumes "LastChar s = EOF"
  shows "gettok strtod s = (EOFToken, s)"
  using assms
  by (subst gettok.simps)
     (simp add: gettok_whitespace_eq gettok_char_def Let_def)

lemma getNextToken_stands_at:
  assumes "LastChar s = peek t" and "stdin s = tl t" and "t = [] \<or> punctuation (hd t)"
  shows "stands_at (snd (getNextToken strtod s)) t"
proof (cases t)
  case Nil
  then show ?thesis
    using assms gettok_at_EOF [of s strtod] by (simp add: stands_at_def getNextToken_def peek_def)
next
  case (Cons c t')
  then show ?thesis
    using assms gettok_punctuation [of s c strtod]
    by (simp add: stands_at_def getNextToken_def peek_def)
qed

lemma precedence_step [simp]:
  "precedence (snd (getNextToken strtod s)) = precedence s"
  "precedence (snd (GetTokPrecedence s)) = precedence s"
  by (auto simp: precedence_def fun_eq_iff GetTokPrecedence_def Let_def split: option.splits)

lemma GetTokPrecedence_precedence:
  "fst (GetTokPrecedence s) =
     (if isascii (CurTok s) then precedence s (char_of (CurTok s)) else - 1)"
  by (auto simp: precedence_def GetTokPrecedence_def Let_def split: option.splits)

lemma precedence_positive:
  "0 \<le> precedence s c \<Longrightarrow> 0 < precedence s c \<and> BinopPrecedence s c = Some (precedence s c)"
  by (simp add: precedence_def split: option.splits if_splits)

lemma GetTokPrecedence_operator_char:
  assumes "CurTok s = of_char c" and "isascii (of_char c)" and "0 \<le> precedence s c"
  shows "GetTokPrecedence s = (precedence s c, s)"
  using assms precedence_positive [OF assms(3)] by (simp add: GetTokPrecedence_def)

lemma stands_at_GetTokPrecedence [simp]:
  "stands_at (snd (GetTokPrecedence s)) t = stands_at s t"
  by (simp add: stands_at_def)

lemma punctuation_isascii: "punctuation c \<Longrightarrow> isascii (of_char c)"
  by (simp add: punctuation_def)

text \<open>An operator and its number: the lexer and \<open>ParsePrimary\<close> go through them.\<close>

lemma ParsePrimary_number:
  assumes at: "stands_at s (b # num @ t)" and num: "number_text num"
    and t: "t = [] \<or> punctuation (hd t)"
  shows "\<exists>s'. ParsePrimary strtod (Suc m) (snd (getNextToken strtod s)) =
           Some (Some (NumberExprAST (strtod num)), s') \<and>
         stands_at s' t \<and> precedence s' = precedence s"
proof -
  obtain c cs where n: "num = c # cs" using num by (cases num) (auto simp: number_text_def)
  have l: "LastChar s = of_char c" and i: "stdin s = cs @ t"
    using at by (simp_all add: stands_at_def n peek_def)
  have nt: "t = [] \<or> \<not> number_char (hd t)" using t punctuation_not_number by blast
  have "gettok strtod s = (NumberToken, s\<lparr>stdin := tl t, LastChar := peek t, NumVal := strtod (c # cs)\<rparr>)"
    using gettok_number_text [of s c "[]" c cs t strtod] l i nt num by (simp add: n number_text_def)
  then have g: "snd (getNextToken strtod s) =
      s\<lparr>stdin := tl t, LastChar := peek t, NumVal := strtod num, CurTok := NumberToken\<rparr>"
    by (simp add: getNextToken_def n)
  define s2 where "s2 = snd (getNextToken strtod s)"
  have f: "CurTok s2 = NumberToken" "NumVal s2 = strtod num" "LastChar s2 = peek t" "stdin s2 = tl t"
    by (simp_all add: s2_def g)
  have "ParsePrimary strtod (Suc m) s2 =
      Some (Some (NumberExprAST (strtod num)), snd (getNextToken strtod s2))"
    using f by (simp add: ParsePrimary.simps ParseNumberExpr_def)
  moreover have "stands_at (snd (getNextToken strtod s2)) t"
    using f t by (intro getNextToken_stands_at) simp_all
  moreover have "precedence (snd (getNextToken strtod s2)) = precedence s"
    by (simp add: s2_def)
  ultimately show ?thesis unfolding s2_def by blast
qed

text \<open>
  The token the parser stands at, when it is the end of the input or a character whose
  precedence is below the bound, stops \<open>ParseBinOpRHS\<close>.
\<close>

lemma ParseBinOpRHS_stop:
  assumes at: "stands_at s t"
    and stop: "t = [] \<and> 0 \<le> ExprPrec \<or> t \<noteq> [] \<and> punctuation (hd t) \<and> precedence s (hd t) < ExprPrec"
  shows "\<exists>s'. ParseBinOpRHS strtod (Suc n) ExprPrec LHS s = Some (Some LHS, s') \<and>
           stands_at s' t \<and> precedence s' = precedence s"
proof -
  have "fst (GetTokPrecedence s) < ExprPrec"
  proof (cases t)
    case Nil
    then have "CurTok s = EOF" using at by (simp add: stands_at_def peek_def)
    then show ?thesis using stop Nil by (simp add: GetTokPrecedence_precedence isascii_def)
  next
    case (Cons c t')
    then have "CurTok s = of_char c" using at by (simp add: stands_at_def peek_def)
    then show ?thesis
      using stop Cons punctuation_isascii [of c] by (simp add: GetTokPrecedence_precedence)
  qed
  then have "ParseBinOpRHS strtod (Suc n) ExprPrec LHS s = Some (Some LHS, snd (GetTokPrecedence s))"
    by (simp add: ParseBinOpRHS.simps split_def)
  then show ?thesis using at by simp
qed

text \<open>
  A chain whose operators have precedences that never increase, none below the bound
  \<open>ExprPrec\<close>, followed by the end of the input or by a character of a precedence
  below the bound: \<open>ParseBinOpRHS\<close> applies the operators from left to right and
  stops after the chain.
\<close>

lemma ParseBinOpRHS_chain:
  assumes "stands_at s (chain_text xs @ t)"
    and "precedence s = prec"
    and "\<forall>(b, num)\<in>set xs. punctuation b \<and> ExprPrec \<le> prec b \<and> number_text num"
    and "sorted_wrt (\<lambda>x y. prec (fst y) \<le> prec (fst x)) xs"
    and "0 \<le> ExprPrec"
    and "t = [] \<or> punctuation (hd t) \<and> prec (hd t) < ExprPrec"
    and "length xs < n"
  shows "\<exists>s'. ParseBinOpRHS strtod n ExprPrec LHS s = Some (Some (chain_tree strtod LHS xs), s') \<and>
           stands_at s' t \<and> precedence s' = prec"
  using assms
proof (induction xs arbitrary: s n LHS)
  case Nil
  obtain m where n: "n = Suc m" using Nil.prems(7) by (cases n) auto
  have "t = [] \<and> 0 \<le> ExprPrec \<or> t \<noteq> [] \<and> punctuation (hd t) \<and> precedence s (hd t) < ExprPrec"
    using Nil.prems(2,5,6) by auto
  then show ?case
    using ParseBinOpRHS_stop [of s t ExprPrec strtod m LHS] Nil.prems(1,2) by (simp add: n)
next
  case (Cons x xs)
  obtain b num where x: "x = (b, num)" by (cases x)
  obtain m where n: "n = Suc (Suc m)" and m: "length xs < Suc m"
    using Cons.prems(7) by (cases n; cases "n - 1") auto
  define t' where "t' = chain_text xs @ t"
  have at: "stands_at s (b # num @ t')" using Cons.prems(1) by (simp add: x t'_def)
  have b: "punctuation b" "ExprPrec \<le> prec b" "number_text num"
    using Cons.prems(3) by (simp_all add: x)
  have t': "t' = [] \<or> punctuation (hd t') \<and> prec (hd t') \<le> prec b"
  proof (cases xs)
    case Nil
    then show ?thesis using Cons.prems(6) b(2) by (auto simp: t'_def)
  next
    case (Cons y ys)
    obtain b' num' where y: "y = (b', num')" by (cases y)
    have "punctuation b'" "prec b' \<le> prec b"
      using Cons.prems(3,4) Cons by (simp_all add: x y)
    then show ?thesis by (simp add: t'_def Cons y)
  qed
  have cur: "CurTok s = of_char b" using at by (simp add: stands_at_def peek_def)
  have pb0: "0 \<le> precedence s b" using b(2) Cons.prems(2,5) by simp
  have pb: "0 < prec b" using precedence_positive [OF pb0] Cons.prems(2) by simp
  have g: "GetTokPrecedence s = (prec b, s)"
    using GetTokPrecedence_operator_char [OF cur punctuation_isascii [OF b(1)] pb0] Cons.prems(2)
    by simp
  obtain s3 where p: "ParsePrimary strtod (Suc m) (snd (getNextToken strtod s)) =
           Some (Some (NumberExprAST (strtod num)), s3)"
      and at3: "stands_at s3 t'" and prec3: "precedence s3 = prec"
    using ParsePrimary_number [OF at b(3), of strtod m] t' Cons.prems(2) by auto
  define s4 where "s4 = snd (GetTokPrecedence s3)"
  have at4: "stands_at s4 (chain_text xs @ t)" and prec4: "precedence s4 = prec"
    using at3 prec3 by (simp_all add: s4_def t'_def)
  have next_le: "\<not> prec b < fst (GetTokPrecedence s3)"
  proof (cases t')
    case Nil
    then have "CurTok s3 = EOF" using at3 by (simp add: stands_at_def peek_def)
    then show ?thesis using pb by (simp add: GetTokPrecedence_precedence isascii_def)
  next
    case (Cons c t'')
    then have "CurTok s3 = of_char c" using at3 by (simp add: stands_at_def peek_def)
    then show ?thesis
      using t' Cons prec3 punctuation_isascii [of c] by (simp add: GetTokPrecedence_precedence)
  qed
  have unf: "ParseBinOpRHS strtod n ExprPrec LHS s =
      ParseBinOpRHS strtod (Suc m) ExprPrec (BinaryExprAST b LHS (NumberExprAST (strtod num))) s4"
    using g b(2) p next_le cur
    by (simp add: n ParseBinOpRHS.simps(2) [of strtod "Suc m"] split_def s4_def)
  have rest: "\<forall>(b, num)\<in>set xs. punctuation b \<and> ExprPrec \<le> prec b \<and> number_text num"
    "sorted_wrt (\<lambda>x y. prec (fst y) \<le> prec (fst x)) xs"
    using Cons.prems(3,4) by simp_all
  show ?case
    using Cons.IH [OF at4 prec4 rest Cons.prems(5,6) m, of "BinaryExprAST b LHS (NumberExprAST (strtod num))"]
    by (simp add: unf x)
qed

text \<open>
  An expression made of a number, an operator \<open>b1\<close> and a number, then a chain
  \<open>xs\<close> of operators that all bind tighter than \<open>b1\<close>, then a chain \<open>ys\<close> of
  operators that do not, up to the end of the input. The recursive call that
  \<open>ParseBinOpRHS\<close> makes for the right operand of \<open>b1\<close> takes the whole of
  \<open>xs\<close> and stops at \<open>ys\<close>; the operators of \<open>ys\<close> are applied to what
  \<open>b1\<close> has built.
\<close>

lemma ParseExpression_chains:
  assumes l: "LastChar s = of_char CHR '' ''"
    and i: "stdin s = num0 @ b1 # num1 @ chain_text xs @ chain_text ys"
    and num: "number_text num0" "number_text num1"
    and b1: "punctuation b1" "0 < precedence s b1"
    and xs: "\<forall>(b, num)\<in>set xs. punctuation b \<and> precedence s b1 < precedence s b \<and> number_text num"
      "sorted_wrt (\<lambda>x y. precedence s (fst y) \<le> precedence s (fst x)) xs"
    and ys: "\<forall>(b, num)\<in>set ys.
        punctuation b \<and> 0 < precedence s b \<and> precedence s b \<le> precedence s b1 \<and> number_text num"
      "sorted_wrt (\<lambda>x y. precedence s (fst y) \<le> precedence s (fst x)) ys"
    and n: "length xs + length ys + 3 \<le> n"
  shows "map_option fst (ParseExpression strtod n (snd (getNextToken strtod s))) =
     Some (Some (chain_tree strtod
       (BinaryExprAST b1 (NumberExprAST (strtod num0))
          (chain_tree strtod (NumberExprAST (strtod num1)) xs)) ys))"
proof -
  define prec where "prec = precedence s"
  define t where "t = b1 # num1 @ chain_text xs @ chain_text ys"
  define t' where "t' = chain_text xs @ chain_text ys"
  define LHS :: "'a ExprAST" where "LHS = NumberExprAST (strtod num0)"
  define RHS :: "'a ExprAST" where "RHS = NumberExprAST (strtod num1)"
  obtain m where n': "n = Suc (Suc (Suc m))" and mx: "length xs < Suc m" and my: "length ys < Suc m"
  proof -
    have "n = Suc (Suc (Suc (n - 3)))" "length xs < Suc (n - 3)" "length ys < Suc (n - 3)"
      using n by simp_all
    then show ?thesis using that by blast
  qed
  obtain c cs where n0: "num0 = c # cs" using num(1) by (cases num0) (auto simp: number_text_def)
  have "gettok strtod s =
      (NumberToken, s\<lparr>stdin := tl t, LastChar := peek t, NumVal := strtod (c # cs)\<rparr>)"
    using gettok_number_text [of s "CHR '' ''" "'' ''" c cs t strtod] l i num(1) b1(1)
      punctuation_not_number [of b1]
    by (simp add: n0 number_text_def t_def isspace_def)
  then have g1: "snd (getNextToken strtod s) =
      s\<lparr>stdin := tl t, LastChar := peek t, NumVal := strtod num0, CurTok := NumberToken\<rparr>"
    by (simp add: getNextToken_def n0)
  define s1 where "s1 = snd (getNextToken strtod s)"
  define s2 where "s2 = snd (getNextToken strtod s1)"
  have f1: "CurTok s1 = NumberToken" "NumVal s1 = strtod num0" "LastChar s1 = peek t" "stdin s1 = tl t"
    by (simp_all add: s1_def g1)
  have p1: "ParsePrimary strtod (Suc (Suc m)) s1 = Some (Some LHS, s2)"
    using f1 by (simp add: ParsePrimary.simps ParseNumberExpr_def s2_def LHS_def)
  have at2: "stands_at s2 (b1 # num1 @ t')"
    unfolding s2_def using f1 b1(1) by (intro getNextToken_stands_at) (simp_all add: t_def t'_def)
  have prec2: "precedence s2 = prec" by (simp add: s2_def s1_def prec_def)
  have cur2: "CurTok s2 = of_char b1" using at2 by (simp add: stands_at_def peek_def)
  have g2: "GetTokPrecedence s2 = (prec b1, s2)"
    using GetTokPrecedence_operator_char [OF cur2 punctuation_isascii [OF b1(1)]] b1(2) prec2
    by (simp add: prec_def)
  have yst: "chain_text ys = [] \<or> punctuation (hd (chain_text ys)) \<and> prec (hd (chain_text ys)) \<le> prec b1"
  proof (cases ys)
    case Nil
    then show ?thesis by simp
  next
    case (Cons y ys')
    obtain b num where "y = (b, num)" by (cases y)
    then show ?thesis using ys(1) Cons by (simp add: prec_def)
  qed
  have t'p: "t' = [] \<or> punctuation (hd t')"
  proof (cases xs)
    case Nil
    then show ?thesis using yst by (auto simp: t'_def)
  next
    case (Cons x xs')
    obtain b num where "x = (b, num)" by (cases x)
    then show ?thesis using xs(1) Cons by (simp add: t'_def)
  qed
  obtain s3 where p3: "ParsePrimary strtod (Suc m) (snd (getNextToken strtod s2)) = Some (Some RHS, s3)"
      and at3: "stands_at s3 t'" and prec3: "precedence s3 = prec"
    using ParsePrimary_number [OF at2 num(2) t'p, of strtod m] prec2 by (auto simp: RHS_def)
  define s4 where "s4 = snd (GetTokPrecedence s3)"
  have at4: "stands_at s4 (chain_text xs @ chain_text ys)" and prec4: "precedence s4 = prec"
    using at3 prec3 by (simp_all add: s4_def t'_def)
  have ysc: "\<forall>(b, num)\<in>set ys. punctuation b \<and> 0 \<le> prec b \<and> number_text num"
    "sorted_wrt (\<lambda>x y. prec (fst y) \<le> prec (fst x)) ys"
    using ys by (auto simp: prec_def)
  have outer: "\<exists>s'. ParseBinOpRHS strtod (Suc m) 0 L s5 = Some (Some (chain_tree strtod L ys), s')"
    if "stands_at s5 (chain_text ys)" "precedence s5 = prec" for L s5
    using ParseBinOpRHS_chain [of s5 ys "[]" prec 0 "Suc m" strtod L] that ysc my by auto
  have "\<exists>s'. ParseBinOpRHS strtod (Suc (Suc m)) 0 LHS s2 =
      Some (Some (chain_tree strtod (BinaryExprAST b1 LHS (chain_tree strtod RHS xs)) ys), s')"
  proof (cases xs)
    case Nil
    have "CurTok s3 = peek (chain_text ys)" using at3 by (simp add: stands_at_def t'_def Nil)
    then have "\<not> prec b1 < fst (GetTokPrecedence s3)"
      using yst prec3 b1(2) punctuation_isascii [of "hd (chain_text ys)"]
      by (cases "chain_text ys")
         (auto simp: GetTokPrecedence_precedence peek_def isascii_def prec_def)
    then have "ParseBinOpRHS strtod (Suc (Suc m)) 0 LHS s2 =
        ParseBinOpRHS strtod (Suc m) 0 (BinaryExprAST b1 LHS RHS) s4"
      using g2 b1(2) p3 cur2
      by (simp add: ParseBinOpRHS.simps(2) [of strtod "Suc m"] split_def s4_def prec_def)
    then show ?thesis using outer [of s4 "BinaryExprAST b1 LHS RHS"] at4 prec4 by (simp add: Nil)
  next
    case (Cons x xs')
    obtain b num where x: "x = (b, num)" by (cases x)
    have bx: "punctuation b" "prec b1 < prec b" using xs(1) Cons by (simp_all add: x prec_def)
    have "CurTok s3 = of_char b" using at3 by (simp add: stands_at_def t'_def Cons x peek_def)
    then have gt: "prec b1 < fst (GetTokPrecedence s3)"
      using bx prec3 punctuation_isascii [of b] by (simp add: GetTokPrecedence_precedence)
    have xsc: "\<forall>(b, num)\<in>set xs. punctuation b \<and> prec b1 + 1 \<le> prec b \<and> number_text num"
      "sorted_wrt (\<lambda>x y. prec (fst y) \<le> prec (fst x)) xs"
      using xs by (auto simp: prec_def)
    have stop: "chain_text ys = [] \<or> punctuation (hd (chain_text ys)) \<and> prec (hd (chain_text ys)) < prec b1 + 1"
      using yst by auto
    obtain s5 where r: "ParseBinOpRHS strtod (Suc m) (prec b1 + 1) RHS s4 =
          Some (Some (chain_tree strtod RHS xs), s5)"
        and at5: "stands_at s5 (chain_text ys)" and prec5: "precedence s5 = prec"
      using ParseBinOpRHS_chain [OF at4 prec4 xsc _ stop mx, of strtod RHS] b1(2)
      by (auto simp: prec_def)
    have "ParseBinOpRHS strtod (Suc (Suc m)) 0 LHS s2 =
        ParseBinOpRHS strtod (Suc m) 0 (BinaryExprAST b1 LHS (chain_tree strtod RHS xs)) s5"
      using g2 b1(2) p3 cur2 gt r
      by (simp add: ParseBinOpRHS.simps(2) [of strtod "Suc m"] split_def s4_def prec_def)
    then show ?thesis
      using outer [OF at5 prec5, of "BinaryExprAST b1 LHS (chain_tree strtod RHS xs)"] by simp
  qed
  then show ?thesis
    using p1 by (auto simp: n' ParseExpression.simps s1_def LHS_def RHS_def)
qed


section \<open>Evaluation on concrete inputs\<close>

text \<open>The unfolding rules that run the lexer and the parser on a given input.\<close>

lemmas lex_eval = gettok.simps gettok_whitespace.simps gettok_identifier.simps gettok_number.simps
  gettok_comment.simps gettok_char_def getchar_def getNextToken_def
  isspace_def isalpha_def isalnum_def isdigit_def isascii_def char_of_def Let_def

lemmas parse_eval = lex_eval GetTokPrecedence_def LogError_def LogErrorP_def ParseNumberExpr_def
  ParseParenExpr.simps ParseIdentifierExpr.simps ParseIdentifierExpr_args.simps ParsePrimary.simps
  ParseBinOpRHS.simps ParseExpression.simps
  ParsePrototype_args.simps ParsePrototype_def ParseDefinition_def ParseTopLevelExpr_def ParseExtern_def


section \<open>The claims\<close>

text \<open>
  C1. On the input \<open>1+2*3\<close>, with \<open>+\<close> at precedence 20 and \<open>*\<close> at 40,
  \<open>ParseExpression\<close> returns \<open>+\<close> applied to 1 and to the product of 2 and 3: the
  multiplication, which binds tighter, is absorbed into the right-hand side by the
  recursive call of \<open>ParseBinOpRHS\<close>. This holds under every bound on the call depth
  of at least four, for the table that holds these two operators only and for the table
  that \<open>main\<close> installs. The numbers are what \<open>strtod\<close> makes of the digits.
\<close>

theorem C1_multiplication_binds_tighter:
  "map_option fst
     (ParseExpression strtod (Suc (Suc (Suc (Suc n))))
        (snd (getNextToken strtod
           (s\<lparr>stdin := ''1+2*3'', LastChar := of_char CHR '' '',
              BinopPrecedence := [CHR ''+'' \<mapsto> 20, CHR ''*'' \<mapsto> 40]\<rparr>)))) =
   Some (Some (BinaryExprAST CHR ''+'' (NumberExprAST (strtod ''1''))
     (BinaryExprAST CHR ''*'' (NumberExprAST (strtod ''2'')) (NumberExprAST (strtod ''3'')))))
   \<and>
   map_option fst
     (ParseExpression strtod (Suc (Suc (Suc (Suc n))))
        (snd (getNextToken strtod (main_table (statics zero ''1+2*3''))))) =
   Some (Some (BinaryExprAST CHR ''+'' (NumberExprAST (strtod ''1''))
     (BinaryExprAST CHR ''*'' (NumberExprAST (strtod ''2'')) (NumberExprAST (strtod ''3'')))))"
  by (simp add: parse_eval main_table_def statics_def)


text \<open>
  C2. Operators of equal precedence associate to the left. After the right operand of an
  operator, \<open>ParseBinOpRHS\<close> looks at the precedence of the next token. When it is
  not strictly greater than that of the operator just read, no recursive call is made:
  the operator is applied to the two operands at hand, and the result is the left operand
  of what follows. When it is strictly greater, the right operand is first extended by a
  recursive call whose bound is the precedence of the operator just read plus one. Both
  hold in every state, under every bound on the depth.

  What follows for an input made of a number, an operator \<open>b1\<close> and a number, then a
  chain \<open>xs\<close> of operators that all bind tighter than \<open>b1\<close>, then a chain \<open>ys\<close>
  of operators that do not, the precedences never increasing along either chain: the tree
  applies the operators of \<open>ys\<close> from left to right to the node of \<open>b1\<close>, whose
  right operand is the left-nested tree of \<open>xs\<close>. With \<open>xs\<close> empty and the
  precedences equal, this is left association; and the recursive call for the right
  operand of \<open>b1\<close> stops at the first operator of \<open>ys\<close>, because its bound is the
  precedence of \<open>b1\<close> plus one.

  So \<open>1-2-3\<close> is parsed as \<open>(1-2)-3\<close> whatever positive precedence the table
  gives to \<open>-\<close>, never as the right-nested tree, and under the table of \<open>main\<close>
  \<open>1-2*3-4\<close> is parsed as \<open>(1-(2*3))-4\<close>.
\<close>

theorem C2_equal_precedence_left:
  "(\<forall>RHS s3.
      \<not> fst (GetTokPrecedence s) < ExprPrec \<and>
      ParsePrimary strtod n (snd (getNextToken strtod (snd (GetTokPrecedence s)))) =
        Some (Some RHS, s3) \<and>
      \<not> fst (GetTokPrecedence s) < fst (GetTokPrecedence s3) \<longrightarrow>
      ParseBinOpRHS strtod (Suc n) ExprPrec LHS s =
        ParseBinOpRHS strtod n ExprPrec (BinaryExprAST (char_of (CurTok s)) LHS RHS)
          (snd (GetTokPrecedence s3))) \<and>
   (\<forall>RHS s3.
      \<not> fst (GetTokPrecedence s) < ExprPrec \<and>
      ParsePrimary strtod n (snd (getNextToken strtod (snd (GetTokPrecedence s)))) =
        Some (Some RHS, s3) \<and>
      fst (GetTokPrecedence s) < fst (GetTokPrecedence s3) \<longrightarrow>
      ParseBinOpRHS strtod (Suc n) ExprPrec LHS s =
        (case ParseBinOpRHS strtod n (fst (GetTokPrecedence s) + 1) RHS (snd (GetTokPrecedence s3)) of
           None \<Rightarrow> None
         | Some (None, s5) \<Rightarrow> Some (None, s5)
         | Some (Some RHS1, s5) \<Rightarrow>
             ParseBinOpRHS strtod n ExprPrec (BinaryExprAST (char_of (CurTok s)) LHS RHS1) s5)) \<and>
   (LastChar s = of_char CHR '' '' \<and>
    stdin s = num0 @ b1 # num1 @ chain_text xs @ chain_text ys \<and>
    number_text num0 \<and> number_text num1 \<and> punctuation b1 \<and> 0 < precedence s b1 \<and>
    (\<forall>(b, num)\<in>set xs. punctuation b \<and> precedence s b1 < precedence s b \<and> number_text num) \<and>
    sorted_wrt (\<lambda>x y. precedence s (fst y) \<le> precedence s (fst x)) xs \<and>
    (\<forall>(b, num)\<in>set ys.
        punctuation b \<and> 0 < precedence s b \<and> precedence s b \<le> precedence s b1 \<and> number_text num) \<and>
    sorted_wrt (\<lambda>x y. precedence s (fst y) \<le> precedence s (fst x)) ys \<and>
    length xs + length ys + 3 \<le> k \<longrightarrow>
    map_option fst (ParseExpression strtod k (snd (getNextToken strtod s))) =
      Some (Some (chain_tree strtod
        (BinaryExprAST b1 (NumberExprAST (strtod num0))
           (chain_tree strtod (NumberExprAST (strtod num1)) xs)) ys))) \<and>
   (stdin s = ''1-2-3'' \<and> LastChar s = of_char CHR '' '' \<and>
    BinopPrecedence s CHR ''-'' = Some p \<and> 0 < p \<longrightarrow>
    map_option fst
      (ParseExpression strtod (Suc (Suc (Suc (Suc (Suc n))))) (snd (getNextToken strtod s))) =
    Some (Some (BinaryExprAST CHR ''-''
      (BinaryExprAST CHR ''-'' (NumberExprAST (strtod ''1'')) (NumberExprAST (strtod ''2'')))
      (NumberExprAST (strtod ''3''))))
    \<and>
    map_option fst
      (ParseExpression strtod (Suc (Suc (Suc (Suc (Suc n))))) (snd (getNextToken strtod s))) \<noteq>
    Some (Some (BinaryExprAST CHR ''-'' (NumberExprAST (strtod ''1''))
      (BinaryExprAST CHR ''-'' (NumberExprAST (strtod ''2'')) (NumberExprAST (strtod ''3'')))))) \<and>
   map_option fst
     (ParseExpression strtod (Suc (Suc (Suc (Suc (Suc n))))) (main_start strtod zero ''1-2*3-4'')) =
   Some (Some (BinaryExprAST CHR ''-''
     (BinaryExprAST CHR ''-'' (NumberExprAST (strtod ''1''))
        (BinaryExprAST CHR ''*'' (NumberExprAST (strtod ''2'')) (NumberExprAST (strtod ''3''))))
     (NumberExprAST (strtod ''4''))))"
proof (intro conjI allI impI)
  fix RHS s3
  assume a: "\<not> fst (GetTokPrecedence s) < ExprPrec \<and>
      ParsePrimary strtod n (snd (getNextToken strtod (snd (GetTokPrecedence s)))) =
        Some (Some RHS, s3) \<and>
      \<not> fst (GetTokPrecedence s) < fst (GetTokPrecedence s3)"
  then show "ParseBinOpRHS strtod (Suc n) ExprPrec LHS s =
        ParseBinOpRHS strtod n ExprPrec (BinaryExprAST (char_of (CurTok s)) LHS RHS)
          (snd (GetTokPrecedence s3))"
    by (simp add: ParseBinOpRHS.simps(2) [of strtod n] split_def)
next
  fix RHS s3
  assume a: "\<not> fst (GetTokPrecedence s) < ExprPrec \<and>
      ParsePrimary strtod n (snd (getNextToken strtod (snd (GetTokPrecedence s)))) =
        Some (Some RHS, s3) \<and>
      fst (GetTokPrecedence s) < fst (GetTokPrecedence s3)"
  then show "ParseBinOpRHS strtod (Suc n) ExprPrec LHS s =
        (case ParseBinOpRHS strtod n (fst (GetTokPrecedence s) + 1) RHS (snd (GetTokPrecedence s3)) of
           None \<Rightarrow> None
         | Some (None, s5) \<Rightarrow> Some (None, s5)
         | Some (Some RHS1, s5) \<Rightarrow>
             ParseBinOpRHS strtod n ExprPrec (BinaryExprAST (char_of (CurTok s)) LHS RHS1) s5)"
    by (simp add: ParseBinOpRHS.simps(2) [of strtod n] split_def)
next
  assume "LastChar s = of_char CHR '' '' \<and>
    stdin s = num0 @ b1 # num1 @ chain_text xs @ chain_text ys \<and>
    number_text num0 \<and> number_text num1 \<and> punctuation b1 \<and> 0 < precedence s b1 \<and>
    (\<forall>(b, num)\<in>set xs. punctuation b \<and> precedence s b1 < precedence s b \<and> number_text num) \<and>
    sorted_wrt (\<lambda>x y. precedence s (fst y) \<le> precedence s (fst x)) xs \<and>
    (\<forall>(b, num)\<in>set ys.
        punctuation b \<and> 0 < precedence s b \<and> precedence s b \<le> precedence s b1 \<and> number_text num) \<and>
    sorted_wrt (\<lambda>x y. precedence s (fst y) \<le> precedence s (fst x)) ys \<and>
    length xs + length ys + 3 \<le> k"
  then show "map_option fst (ParseExpression strtod k (snd (getNextToken strtod s))) =
      Some (Some (chain_tree strtod
        (BinaryExprAST b1 (NumberExprAST (strtod num0))
           (chain_tree strtod (NumberExprAST (strtod num1)) xs)) ys))"
    using ParseExpression_chains [of s num0 b1 num1 xs ys k strtod] by blast
next
  assume a: "stdin s = ''1-2-3'' \<and> LastChar s = of_char CHR '' '' \<and>
    BinopPrecedence s CHR ''-'' = Some p \<and> 0 < p"
  then show "map_option fst
      (ParseExpression strtod (Suc (Suc (Suc (Suc (Suc n))))) (snd (getNextToken strtod s))) =
    Some (Some (BinaryExprAST CHR ''-''
      (BinaryExprAST CHR ''-'' (NumberExprAST (strtod ''1'')) (NumberExprAST (strtod ''2'')))
      (NumberExprAST (strtod ''3''))))"
    by (simp add: parse_eval)
  then show "map_option fst
      (ParseExpression strtod (Suc (Suc (Suc (Suc (Suc n))))) (snd (getNextToken strtod s))) \<noteq>
    Some (Some (BinaryExprAST CHR ''-'' (NumberExprAST (strtod ''1''))
      (BinaryExprAST CHR ''-'' (NumberExprAST (strtod ''2'')) (NumberExprAST (strtod ''3'')))))"
    by (simp only: option.inject ExprAST.inject ExprAST.distinct not_False_eq_True simp_thms)
next
  show "map_option fst
     (ParseExpression strtod (Suc (Suc (Suc (Suc (Suc n))))) (main_start strtod zero ''1-2*3-4'')) =
   Some (Some (BinaryExprAST CHR ''-''
     (BinaryExprAST CHR ''-'' (NumberExprAST (strtod ''1''))
        (BinaryExprAST CHR ''*'' (NumberExprAST (strtod ''2'')) (NumberExprAST (strtod ''3''))))
     (NumberExprAST (strtod ''4''))))"
    by (simp add: main_start_def main_table_def statics_def prompt_def parse_eval)
qed

theorem C2_equal_precedence_left_witness:
  "(let s = snd (getNextToken (\<lambda>x. x) (main_start (\<lambda>x. x) [] ''1-2-3''))
    in \<exists>s3. \<not> fst (GetTokPrecedence s) < 0 \<and>
         ParsePrimary (\<lambda>x. x) 3 (snd (getNextToken (\<lambda>x. x) (snd (GetTokPrecedence s)))) =
           Some (Some (NumberExprAST ''2''), s3) \<and>
         fst (GetTokPrecedence s) = 20 \<and> fst (GetTokPrecedence s3) = 20 \<and>
         ParseBinOpRHS (\<lambda>x. x) 4 0 (NumberExprAST ''1'') s =
           ParseBinOpRHS (\<lambda>x. x) 3 0
             (BinaryExprAST CHR ''-'' (NumberExprAST ''1'') (NumberExprAST ''2''))
             (snd (GetTokPrecedence s3))) \<and>
   (let s = snd (getNextToken (\<lambda>x. x) (main_start (\<lambda>x. x) [] ''1+2*3''))
    in \<exists>s3. \<not> fst (GetTokPrecedence s) < 0 \<and>
         ParsePrimary (\<lambda>x. x) 3 (snd (getNextToken (\<lambda>x. x) (snd (GetTokPrecedence s)))) =
           Some (Some (NumberExprAST ''2''), s3) \<and>
         fst (GetTokPrecedence s) = 20 \<and> fst (GetTokPrecedence s3) = 40 \<and>
         ParseBinOpRHS (\<lambda>x. x) 4 0 (NumberExprAST ''1'') s =
           (case ParseBinOpRHS (\<lambda>x. x) 3 21 (NumberExprAST ''2'') (snd (GetTokPrecedence s3)) of
              None \<Rightarrow> None
            | Some (None, s5) \<Rightarrow> Some (None, s5)
            | Some (Some RHS1, s5) \<Rightarrow>
                ParseBinOpRHS (\<lambda>x. x) 3 0
                  (BinaryExprAST CHR ''+'' (NumberExprAST ''1'') RHS1) s5)) \<and>
   map_option fst
     (ParseExpression (\<lambda>x. x) 5 (snd (getNextToken (\<lambda>x. x) (main_table (statics [] ''1-2*3-4''))))) =
   Some (Some (BinaryExprAST CHR ''-''
     (BinaryExprAST CHR ''-'' (NumberExprAST ''1'')
        (BinaryExprAST CHR ''*'' (NumberExprAST ''2'') (NumberExprAST ''3'')))
     (NumberExprAST ''4''))) \<and>
   map_option fst
     (ParseExpression (\<lambda>x. x) 5 (snd (getNextToken (\<lambda>x. x) (main_table (statics [] ''10+2-3.5+4''))))) =
   Some (Some (BinaryExprAST CHR ''+''
     (BinaryExprAST CHR ''-''
        (BinaryExprAST CHR ''+'' (NumberExprAST ''10'') (NumberExprAST ''2''))
        (NumberExprAST ''3.5''))
     (NumberExprAST ''4''))) \<and>
   map_option fst
     (ParseExpression (\<lambda>x. x) 5 (snd (getNextToken (\<lambda>x. x) (main_table (statics [] ''1-2-3''))))) =
   Some (Some (BinaryExprAST CHR ''-''
     (BinaryExprAST CHR ''-'' (NumberExprAST ''1'') (NumberExprAST ''2''))
     (NumberExprAST ''3'')))"
proof -
  let ?f = "\<lambda>x :: string. x"
  define sA where "sA = snd (getNextToken ?f (main_start ?f [] ''1-2-3''))"
  define sB where "sB = snd (getNextToken ?f (main_start ?f [] ''1+2*3''))"
  note ev = main_start_def main_table_def statics_def prompt_def lex_eval GetTokPrecedence_def
    ParseNumberExpr_def ParsePrimary.simps numeral_eq_Suc
  have a0: "fst (GetTokPrecedence sA) = 20" "char_of (CurTok sA) = CHR ''-''"
    by (simp_all add: sA_def ev)
  obtain a3 where a1: "ParsePrimary ?f 3 (snd (getNextToken ?f (snd (GetTokPrecedence sA)))) =
        Some (Some (NumberExprAST ''2''), a3)" and a2: "fst (GetTokPrecedence a3) = 20"
    by (simp add: sA_def ev)
  have wA: "ParseBinOpRHS ?f 4 0 (NumberExprAST ''1'') sA =
      ParseBinOpRHS ?f 3 0 (BinaryExprAST CHR ''-'' (NumberExprAST ''1'') (NumberExprAST ''2''))
        (snd (GetTokPrecedence a3))"
    using C2_equal_precedence_left [where s = sA and strtod = ?f and n = 3 and ExprPrec = 0
        and LHS = "NumberExprAST ''1''", THEN conjunct1, rule_format, of "NumberExprAST ''2''" a3]
      a0 a1 a2
    by (simp add: eval_nat_numeral)
  have b0: "fst (GetTokPrecedence sB) = 20" "char_of (CurTok sB) = CHR ''+''"
    by (simp_all add: sB_def ev)
  obtain b3 where b1: "ParsePrimary ?f 3 (snd (getNextToken ?f (snd (GetTokPrecedence sB)))) =
        Some (Some (NumberExprAST ''2''), b3)" and b2: "fst (GetTokPrecedence b3) = 40"
    by (simp add: sB_def ev)
  have wB: "ParseBinOpRHS ?f 4 0 (NumberExprAST ''1'') sB =
      (case ParseBinOpRHS ?f 3 21 (NumberExprAST ''2'') (snd (GetTokPrecedence b3)) of
         None \<Rightarrow> None
       | Some (None, s5) \<Rightarrow> Some (None, s5)
       | Some (Some RHS1, s5) \<Rightarrow>
           ParseBinOpRHS ?f 3 0 (BinaryExprAST CHR ''+'' (NumberExprAST ''1'') RHS1) s5)"
    using C2_equal_precedence_left [where s = sB and strtod = ?f and n = 3 and ExprPrec = 0
        and LHS = "NumberExprAST ''1''", THEN conjunct2, THEN conjunct1, rule_format,
        of "NumberExprAST ''2''" b3, unfolded b0]
      b1 b2
    by (simp add: eval_nat_numeral)
  note hyp = punctuation_def number_text_def precedence_def main_table_def statics_def
    isascii_def isspace_def isalnum_def isalpha_def isdigit_def
  have wC: "map_option fst
     (ParseExpression ?f 5 (snd (getNextToken ?f (main_table (statics [] ''1-2*3-4''))))) =
     Some (Some (chain_tree ?f
        (BinaryExprAST CHR ''-'' (NumberExprAST ''1'')
           (chain_tree ?f (NumberExprAST ''2'') [(CHR ''*'', ''3'')])) [(CHR ''-'', ''4'')]))"
    by (rule C2_equal_precedence_left [where s = "main_table (statics [] ''1-2*3-4'')"
          and strtod = ?f and k = 5 and ?num0.0 = "''1''" and ?b1.0 = "CHR ''-''" and ?num1.0 = "''2''"
          and xs = "[(CHR ''*'', ''3'')]" and ys = "[(CHR ''-'', ''4'')]",
          THEN conjunct2, THEN conjunct2, THEN conjunct1, rule_format])
       (simp add: hyp)
  have wD: "map_option fst
     (ParseExpression ?f 5 (snd (getNextToken ?f (main_table (statics [] ''10+2-3.5+4''))))) =
     Some (Some (chain_tree ?f
        (BinaryExprAST CHR ''+'' (NumberExprAST ''10'')
           (chain_tree ?f (NumberExprAST ''2'') [])) [(CHR ''-'', ''3.5''), (CHR ''+'', ''4'')]))"
    by (rule C2_equal_precedence_left [where s = "main_table (statics [] ''10+2-3.5+4'')"
          and strtod = ?f and k = 5 and ?num0.0 = "''10''" and ?b1.0 = "CHR ''+''" and ?num1.0 = "''2''"
          and xs = "[]" and ys = "[(CHR ''-'', ''3.5''), (CHR ''+'', ''4'')]",
          THEN conjunct2, THEN conjunct2, THEN conjunct1, rule_format])
       (simp add: hyp)
  have wE: "map_option fst
     (ParseExpression ?f 5 (snd (getNextToken ?f (main_table (statics [] ''1-2-3''))))) =
   Some (Some (BinaryExprAST CHR ''-''
     (BinaryExprAST CHR ''-'' (NumberExprAST ''1'') (NumberExprAST ''2''))
     (NumberExprAST ''3'')))"
    using C2_equal_precedence_left [where s = "main_table (statics [] ''1-2-3'')" and p = 20
        and n = 0 and strtod = ?f, THEN conjunct2, THEN conjunct2, THEN conjunct2, THEN conjunct1]
    by (simp add: main_table_def statics_def numeral_eq_Suc)
  show ?thesis
    using a0 a1 a2 wA b0 b1 b2 wB wC wD wE
    by (simp add: sA_def [symmetric] sB_def [symmetric])
qed


text \<open>
  C3. \<open>GetTokPrecedence\<close> answers \<open>-1\<close> for every token that has no positive
  entry in the table: for the tokens that are not ASCII characters (the end of the input,
  the keywords, identifiers, numbers), for the characters that have no entry, and for
  those whose entry is not positive; for the others it answers the entry. It changes
  nothing in the state but the table, and not which characters are operators.
  \<open>ParseBinOpRHS\<close>, when that answer is below its bound \<open>ExprPrec\<close>, returns its
  left operand as it is, and this is the only case in which it does. With a bound that
  is not negative (\<open>ParseExpression\<close> passes 0, and a recursive call passes more
  than the bound of its caller), every token that is not an operator of the table
  therefore ends the expression. Every operator of a tree that
  \<open>ParseBinOpRHS\<close> adds to its left operand, and every operator of a tree that
  \<open>ParseExpression\<close> returns, is a character with a positive entry in the table.
\<close>

theorem C3_only_table_operators:
  "fst (GetTokPrecedence s) =
     (if isascii (CurTok s)
      then (case BinopPrecedence s (char_of (CurTok s)) of
              None \<Rightarrow> - 1
            | Some p \<Rightarrow> if p \<le> 0 then - 1 else p)
      else - 1) \<and>
   (CurTok s \<in> {EOFToken, DefToken, ExternToken, IdentifierToken, NumberToken} \<longrightarrow>
      GetTokPrecedence s = (- 1, s)) \<and>
   (snd (GetTokPrecedence s))\<lparr>BinopPrecedence := BinopPrecedence s\<rparr> = s \<and>
   is_operator (snd (GetTokPrecedence s)) = is_operator s \<and>
   (fst (GetTokPrecedence s) < ExprPrec \<longrightarrow>
      ParseBinOpRHS strtod (Suc n) ExprPrec LHS s = Some (Some LHS, snd (GetTokPrecedence s))) \<and>
   (\<forall>s'. ParseBinOpRHS strtod (Suc n) ExprPrec LHS s = Some (Some LHS, s') \<longrightarrow>
      fst (GetTokPrecedence s) < ExprPrec \<and> s' = snd (GetTokPrecedence s)) \<and>
   (0 \<le> ExprPrec \<and> \<not> (isascii (CurTok s) \<and> is_operator s (char_of (CurTok s))) \<longrightarrow>
      ParseBinOpRHS strtod (Suc n) ExprPrec LHS s = Some (Some LHS, snd (GetTokPrecedence s))) \<and>
   (\<forall>e s'. 0 \<le> ExprPrec \<and> (\<forall>c\<in>set (operators LHS). is_operator s c) \<and>
         ParseBinOpRHS strtod n ExprPrec LHS s = Some (Some e, s') \<longrightarrow>
      (\<forall>c\<in>set (operators e). is_operator s c)) \<and>
   (\<forall>e s'. ParseExpression strtod n s = Some (Some e, s') \<longrightarrow>
      (\<forall>c\<in>set (operators e). is_operator s c))"
proof (intro conjI allI impI)
  show g: "fst (GetTokPrecedence s) =
     (if isascii (CurTok s)
      then (case BinopPrecedence s (char_of (CurTok s)) of
              None \<Rightarrow> - 1
            | Some p \<Rightarrow> if p \<le> 0 then - 1 else p)
      else - 1)"
    by (simp add: GetTokPrecedence_def Let_def split: option.splits)
  show "GetTokPrecedence s = (- 1, s)"
    if "CurTok s \<in> {EOFToken, DefToken, ExternToken, IdentifierToken, NumberToken}"
    using that by (auto simp: GetTokPrecedence_def isascii_def)
  show "(snd (GetTokPrecedence s))\<lparr>BinopPrecedence := BinopPrecedence s\<rparr> = s"
    by (simp add: GetTokPrecedence_def Let_def split: option.splits)
  show "is_operator (snd (GetTokPrecedence s)) = is_operator s" by simp
  show stop: "ParseBinOpRHS strtod (Suc n) ExprPrec LHS s = Some (Some LHS, snd (GetTokPrecedence s))"
    if "fst (GetTokPrecedence s) < ExprPrec"
    using that by (simp add: ParseBinOpRHS.simps split_def)
  show "ParseBinOpRHS strtod (Suc n) ExprPrec LHS s = Some (Some LHS, snd (GetTokPrecedence s))"
    if "0 \<le> ExprPrec \<and> \<not> (isascii (CurTok s) \<and> is_operator s (char_of (CurTok s)))"
  proof -
    have "fst (GetTokPrecedence s) = - 1"
      using that by (auto simp: g is_operator_def split: option.splits)
    then show ?thesis using that by (simp add: ParseBinOpRHS.simps split_def)
  qed
next
  fix s' assume a: "ParseBinOpRHS strtod (Suc n) ExprPrec LHS s = Some (Some LHS, s')"
  show lt: "fst (GetTokPrecedence s) < ExprPrec"
    using a ParseBinOpRHS_continues [of s ExprPrec strtod "Suc n" LHS s'] by blast
  show "s' = snd (GetTokPrecedence s)"
    using a lt by (simp add: ParseBinOpRHS.simps split_def)
next
  fix e s' assume a: "0 \<le> ExprPrec \<and> (\<forall>c\<in>set (operators LHS). is_operator s c) \<and>
         ParseBinOpRHS strtod n ExprPrec LHS s = Some (Some e, s')"
  then show "\<forall>c\<in>set (operators e). is_operator s c"
    using ParseBinOpRHS_operators [of strtod n ExprPrec LHS s "Some e" s'] by simp
next
  fix e s' assume "ParseExpression strtod n s = Some (Some e, s')"
  then show "\<forall>c\<in>set (operators e). is_operator s c"
    using ParseExpression_operators [of strtod n s "Some e" s'] by simp
qed

theorem C3_only_table_operators_witness:
  "(let s = main_start (\<lambda>x. x) [] ''; 1''
    in CurTok s = of_char CHR '';'' \<and> \<not> is_operator s (char_of (CurTok s)) \<and>
       fst (GetTokPrecedence s) = - 1 \<and>
       ParseBinOpRHS (\<lambda>x. x) 1 0 (NumberExprAST ''7'') s =
         Some (Some (NumberExprAST ''7''), snd (GetTokPrecedence s))) \<and>
   (let s = main_start (\<lambda>x. x) [] ''x ; 1''
    in CurTok s = IdentifierToken \<and> \<not> isascii (CurTok s) \<and>
       GetTokPrecedence s = (- 1, s) \<and>
       ParseBinOpRHS (\<lambda>x. x) 1 0 (NumberExprAST ''7'') s = Some (Some (NumberExprAST ''7''), s)) \<and>
   (let s = snd (getNextToken (\<lambda>x. x) (main_start (\<lambda>x. x) [] ''1<2''))
    in fst (GetTokPrecedence s) = 10 \<and>
       ParseBinOpRHS (\<lambda>x. x) 1 11 (NumberExprAST ''1'') s =
         Some (Some (NumberExprAST ''1''), snd (GetTokPrecedence s)) \<and>
       (\<exists>s'. ParseBinOpRHS (\<lambda>x. x) 3 10 (NumberExprAST ''1'') s =
          Some (Some (BinaryExprAST CHR ''<'' (NumberExprAST ''1'') (NumberExprAST ''2'')), s')) \<and>
       ParseBinOpRHS (\<lambda>x. x) 3 10 (NumberExprAST ''1'') s \<noteq>
          Some (Some (NumberExprAST ''1''), snd (GetTokPrecedence s)) \<and>
       is_operator s CHR ''<'') \<and>
   (let s = main_start (\<lambda>x. x) [] ''1+2<3*x-y''
    in map_option (\<lambda>(r, s'). map_option operators r) (ParseExpression (\<lambda>x. x) 9 s) =
         Some (Some ''<+-*'') \<and>
       (\<forall>c\<in>set ''<+-*''. is_operator s c))"
proof -
  let ?f = "\<lambda>x :: string. x"
  define s1 where "s1 = main_start ?f [] ''; 1''"
  define s2 where "s2 = main_start ?f [] ''x ; 1''"
  define s3 where "s3 = main_start ?f [] ''1+2<3*x-y''"
  define s4 where "s4 = snd (getNextToken ?f (main_start ?f [] ''1<2''))"
  note ev = main_start_def main_table_def statics_def prompt_def
  have a1: "CurTok s1 = of_char CHR '';''" "\<not> is_operator s1 (char_of (CurTok s1))"
    by (simp_all add: s1_def ev lex_eval is_operator_def)
  have a2: "CurTok s2 = IdentifierToken" "\<not> isascii (CurTok s2)"
    by (simp_all add: s2_def ev lex_eval)
  obtain e s' where a3: "ParseExpression ?f 9 s3 = Some (Some e, s')" "operators e = ''<+-*''"
    by (simp add: s3_def ev parse_eval numeral_eq_Suc)
  have a4: "isascii (CurTok s4)" "BinopPrecedence s4 (char_of (CurTok s4)) = Some 10"
    by (simp_all add: s4_def ev lex_eval)
  obtain t' where a5: "ParseBinOpRHS ?f 3 10 (NumberExprAST ''1'') s4 =
          Some (Some (BinaryExprAST CHR ''<'' (NumberExprAST ''1'') (NumberExprAST ''2'')), t')"
    by (simp add: s4_def ev parse_eval numeral_eq_Suc)
  note T = C3_only_table_operators [where strtod = ?f]
  note t_prec = T [THEN conjunct1]
  note t_kind = T [THEN conjunct2, THEN conjunct1, rule_format]
  note t_stop = T [THEN conjunct2, THEN conjunct2, THEN conjunct2, THEN conjunct2, THEN conjunct1,
      rule_format]
  note t_only = T [THEN conjunct2, THEN conjunct2, THEN conjunct2, THEN conjunct2, THEN conjunct2,
      THEN conjunct1, rule_format]
  note t_other = T [THEN conjunct2, THEN conjunct2, THEN conjunct2, THEN conjunct2, THEN conjunct2,
      THEN conjunct2, THEN conjunct1, rule_format]
  note t_rhs = T [THEN conjunct2, THEN conjunct2, THEN conjunct2, THEN conjunct2, THEN conjunct2,
      THEN conjunct2, THEN conjunct2, THEN conjunct1, rule_format]
  note t_expr = T [THEN conjunct2, THEN conjunct2, THEN conjunct2, THEN conjunct2, THEN conjunct2,
      THEN conjunct2, THEN conjunct2, THEN conjunct2, rule_format]
  have b1: "fst (GetTokPrecedence s1) = - 1"
    using t_prec [of s1] a1 by (auto simp: is_operator_def split: option.splits if_splits)
  have c1: "ParseBinOpRHS ?f (Suc 0) 0 (NumberExprAST ''7'') s1 =
         Some (Some (NumberExprAST ''7''), snd (GetTokPrecedence s1))"
    using a1 by (intro t_other) simp
  have b2: "GetTokPrecedence s2 = (- 1, s2)"
    using a2 by (intro t_kind) simp
  have c2: "ParseBinOpRHS ?f (Suc 0) 0 (NumberExprAST ''7'') s2 = Some (Some (NumberExprAST ''7''), s2)"
    using t_stop [of s2 0 0 "NumberExprAST ''7''"] b2 by simp
  have c3: "\<forall>c\<in>set ''<+-*''. is_operator s3 c"
    using t_expr [OF a3(1)] a3(2) by simp
  have b4: "fst (GetTokPrecedence s4) = 10"
    using t_prec [of s4] a4 by simp
  have c4: "ParseBinOpRHS ?f (Suc 0) 11 (NumberExprAST ''1'') s4 =
         Some (Some (NumberExprAST ''1''), snd (GetTokPrecedence s4))"
    using b4 by (intro t_stop) simp
  have c5: "\<forall>c\<in>set ''<''. is_operator s4 c"
    using t_rhs [of 10 "NumberExprAST ''1''" s4 3] a5 by simp
  have c6: "\<not> fst (GetTokPrecedence s4) < 10 \<and>
      ParseBinOpRHS ?f (Suc 2) 10 (NumberExprAST ''1'') s4 \<noteq>
        Some (Some (NumberExprAST ''1''), snd (GetTokPrecedence s4))"
    using t_only [of 2 10 "NumberExprAST ''1''" s4 "snd (GetTokPrecedence s4)"] b4 by auto
  show ?thesis
    using a1 a2 a3 a5 b1 b2 b4 c1 c2 c3 c4 c5 c6
    by (simp add: s1_def [symmetric] s2_def [symmetric] s3_def [symmetric] s4_def [symmetric])
qed


text \<open>
  C4. A parse that fails returns \<open>None\<close> for the tree. Where a failure starts
  (a token that starts no expression, a missing closing parenthesis, a missing comma in
  an argument list), the function writes its message and returns \<open>None\<close>: the
  expressions parsed so far are dropped. Each function that called a parse that failed
  returns \<open>None\<close> with the very state the failed parse left: it does nothing after
  the failure and returns no part of a tree. This holds for \<open>ParseParenExpr\<close>, for
  the argument loop and \<open>ParseIdentifierExpr\<close>, for \<open>ParsePrimary\<close>, for
  \<open>ParseBinOpRHS\<close> (the right operand and the recursive call), for
  \<open>ParseExpression\<close>, for \<open>ParseDefinition\<close> and \<open>ParseExtern\<close> (the
  prototype, the body) and for \<open>ParseTopLevelExpr\<close>. A failed \<open>ParseExpression\<close>
  has written exactly one line to standard error, a successful one none. On the input
  \<open>foo(1 2)\<close>, where the comma is missing, \<open>ParseExpression\<close> fails under every
  bound of at least six: no call node is returned, the one message is that of the
  argument list, and the parser stopped at the number 2.
\<close>

theorem C4_failure_propagates:
  "(CurTok s \<noteq> IdentifierToken \<and> CurTok s \<noteq> NumberToken \<and> CurTok s \<noteq> of_char CHR ''('' \<longrightarrow>
      ParsePrimary strtod (Suc n) s =
        Some (None, s\<lparr>stderr := stderr s @ [''Error: unknown token when expecting an expression\<newline>'']\<rparr>)) \<and>
   (\<forall>V s2. ParseExpression strtod n (snd (getNextToken strtod s)) = Some (Some V, s2) \<and>
         CurTok s2 \<noteq> of_char CHR '')'' \<longrightarrow>
      ParseParenExpr strtod (Suc n) s =
        Some (None, s2\<lparr>stderr := stderr s2 @ [''Error: expected ')'' @ [CHR 0x27] @ ''\<newline>'']\<rparr>)) \<and>
   (\<forall>Arg s1. ParseExpression strtod n s = Some (Some Arg, s1) \<and>
         CurTok s1 \<noteq> of_char CHR '')'' \<and> CurTok s1 \<noteq> of_char CHR '','' \<longrightarrow>
      ParseIdentifierExpr_args strtod (Suc n) Args s =
        Some (None, s1\<lparr>stderr := stderr s1 @ [''Error: Expected ')' or ',' in argument list\<newline>'']\<rparr>)) \<and>
   (\<forall>s'. ParseExpression strtod n (snd (getNextToken strtod s)) = Some (None, s') \<longrightarrow>
      ParseParenExpr strtod (Suc n) s = Some (None, s')) \<and>
   (\<forall>s'. ParseExpression strtod n s = Some (None, s') \<longrightarrow>
      ParseIdentifierExpr_args strtod (Suc n) Args s = Some (None, s')) \<and>
   (\<forall>s'. CurTok (snd (getNextToken strtod s)) = of_char CHR ''('' \<and>
         CurTok (snd (getNextToken strtod (snd (getNextToken strtod s)))) \<noteq> of_char CHR '')'' \<and>
         ParseIdentifierExpr_args strtod n []
           (snd (getNextToken strtod (snd (getNextToken strtod s)))) = Some (None, s') \<longrightarrow>
      ParseIdentifierExpr strtod (Suc n) s = Some (None, s')) \<and>
   (\<forall>s'. CurTok s = IdentifierToken \<and> ParseIdentifierExpr strtod n s = Some (None, s') \<or>
         CurTok s = of_char CHR ''('' \<and> ParseParenExpr strtod n s = Some (None, s') \<longrightarrow>
      ParsePrimary strtod (Suc n) s = Some (None, s')) \<and>
   (\<forall>s'. \<not> fst (GetTokPrecedence s) < ExprPrec \<and>
         ParsePrimary strtod n (snd (getNextToken strtod (snd (GetTokPrecedence s)))) =
           Some (None, s') \<longrightarrow>
      ParseBinOpRHS strtod (Suc n) ExprPrec LHS s = Some (None, s')) \<and>
   (\<forall>RHS s3 s'. \<not> fst (GetTokPrecedence s) < ExprPrec \<and>
         ParsePrimary strtod n (snd (getNextToken strtod (snd (GetTokPrecedence s)))) =
           Some (Some RHS, s3) \<and>
         fst (GetTokPrecedence s) < fst (GetTokPrecedence s3) \<and>
         ParseBinOpRHS strtod n (fst (GetTokPrecedence s) + 1) RHS (snd (GetTokPrecedence s3)) =
           Some (None, s') \<longrightarrow>
      ParseBinOpRHS strtod (Suc n) ExprPrec LHS s = Some (None, s')) \<and>
   (\<forall>s'. ParsePrimary strtod n s = Some (None, s') \<longrightarrow>
      ParseExpression strtod (Suc n) s = Some (None, s')) \<and>
   (\<forall>L s1 s'. ParsePrimary strtod n s = Some (Some L, s1) \<and>
         ParseBinOpRHS strtod n 0 L s1 = Some (None, s') \<longrightarrow>
      ParseExpression strtod (Suc n) s = Some (None, s')) \<and>
   (\<forall>s'. ParsePrototype strtod (snd (getNextToken strtod s)) = (None, s') \<longrightarrow>
      ParseDefinition strtod n s = Some (None, s') \<and> ParseExtern strtod s = (None, s')) \<and>
   (\<forall>Proto s2 s'. ParsePrototype strtod (snd (getNextToken strtod s)) = (Some Proto, s2) \<and>
         ParseExpression strtod n s2 = Some (None, s') \<longrightarrow>
      ParseDefinition strtod n s = Some (None, s')) \<and>
   (\<forall>s'. ParseExpression strtod n s = Some (None, s') \<longrightarrow>
      ParseTopLevelExpr strtod n s = Some (None, s')) \<and>
   (\<forall>r s'. ParseExpression strtod n s = Some (r, s') \<longrightarrow>
      (if r = None then \<exists>m. stderr s' = stderr s @ [m] else stderr s' = stderr s)) \<and>
   (\<exists>s'. ParseExpression strtod (Suc (Suc (Suc (Suc (Suc (Suc n))))))
            (main_start strtod zero ''foo(1 2)'') = Some (None, s') \<and>
         stderr s' = [''Error: Expected ')' or ',' in argument list\<newline>''] \<and>
         CurTok s' = NumberToken \<and> NumVal s' = strtod ''2'')"
proof (intro conjI allI impI)
  assume "CurTok s \<noteq> IdentifierToken \<and> CurTok s \<noteq> NumberToken \<and> CurTok s \<noteq> of_char CHR ''(''"
  then show "ParsePrimary strtod (Suc n) s =
        Some (None, s\<lparr>stderr := stderr s @ [''Error: unknown token when expecting an expression\<newline>'']\<rparr>)"
    by (simp add: ParsePrimary.simps LogError_def)
next
  fix V s2 assume "ParseExpression strtod n (snd (getNextToken strtod s)) = Some (Some V, s2) \<and>
         CurTok s2 \<noteq> of_char CHR '')''"
  then show "ParseParenExpr strtod (Suc n) s =
        Some (None, s2\<lparr>stderr := stderr s2 @ [''Error: expected ')'' @ [CHR 0x27] @ ''\<newline>'']\<rparr>)"
    by (simp add: ParseParenExpr.simps LogError_def)
next
  fix Arg s1 assume "ParseExpression strtod n s = Some (Some Arg, s1) \<and>
         CurTok s1 \<noteq> of_char CHR '')'' \<and> CurTok s1 \<noteq> of_char CHR '',''"
  then show "ParseIdentifierExpr_args strtod (Suc n) Args s =
        Some (None, s1\<lparr>stderr := stderr s1 @ [''Error: Expected ')' or ',' in argument list\<newline>'']\<rparr>)"
    by (simp add: ParseIdentifierExpr_args.simps LogError_def)
next
  fix s' assume "ParseExpression strtod n (snd (getNextToken strtod s)) = Some (None, s')"
  then show "ParseParenExpr strtod (Suc n) s = Some (None, s')"
    by (simp add: ParseParenExpr.simps)
next
  fix s' assume "ParseExpression strtod n s = Some (None, s')"
  then show "ParseIdentifierExpr_args strtod (Suc n) Args s = Some (None, s')"
    by (simp add: ParseIdentifierExpr_args.simps)
next
  fix s' assume "CurTok (snd (getNextToken strtod s)) = of_char CHR ''('' \<and>
         CurTok (snd (getNextToken strtod (snd (getNextToken strtod s)))) \<noteq> of_char CHR '')'' \<and>
         ParseIdentifierExpr_args strtod n []
           (snd (getNextToken strtod (snd (getNextToken strtod s)))) = Some (None, s')"
  then show "ParseIdentifierExpr strtod (Suc n) s = Some (None, s')"
    by (simp add: ParseIdentifierExpr.simps Let_def)
next
  fix s' assume "CurTok s = IdentifierToken \<and> ParseIdentifierExpr strtod n s = Some (None, s') \<or>
         CurTok s = of_char CHR ''('' \<and> ParseParenExpr strtod n s = Some (None, s')"
  then show "ParsePrimary strtod (Suc n) s = Some (None, s')"
    by (auto simp: ParsePrimary.simps)
next
  fix s' assume "\<not> fst (GetTokPrecedence s) < ExprPrec \<and>
         ParsePrimary strtod n (snd (getNextToken strtod (snd (GetTokPrecedence s)))) =
           Some (None, s')"
  then show "ParseBinOpRHS strtod (Suc n) ExprPrec LHS s = Some (None, s')"
    by (simp add: ParseBinOpRHS.simps split_def Let_def)
next
  fix RHS s3 s' assume "\<not> fst (GetTokPrecedence s) < ExprPrec \<and>
         ParsePrimary strtod n (snd (getNextToken strtod (snd (GetTokPrecedence s)))) =
           Some (Some RHS, s3) \<and>
         fst (GetTokPrecedence s) < fst (GetTokPrecedence s3) \<and>
         ParseBinOpRHS strtod n (fst (GetTokPrecedence s) + 1) RHS (snd (GetTokPrecedence s3)) =
           Some (None, s')"
  then show "ParseBinOpRHS strtod (Suc n) ExprPrec LHS s = Some (None, s')"
    by (simp add: ParseBinOpRHS.simps split_def Let_def)
next
  fix s' assume "ParsePrimary strtod n s = Some (None, s')"
  then show "ParseExpression strtod (Suc n) s = Some (None, s')"
    by (simp add: ParseExpression.simps)
next
  fix L s1 s' assume "ParsePrimary strtod n s = Some (Some L, s1) \<and>
         ParseBinOpRHS strtod n 0 L s1 = Some (None, s')"
  then show "ParseExpression strtod (Suc n) s = Some (None, s')"
    by (simp add: ParseExpression.simps)
next
  fix s' assume p: "ParsePrototype strtod (snd (getNextToken strtod s)) = (None, s')"
  then show "ParseDefinition strtod n s = Some (None, s')"
    by (simp add: ParseDefinition_def)
  from p show "ParseExtern strtod s = (None, s')"
    by (simp add: ParseExtern_def)
next
  fix Proto s2 s' assume "ParsePrototype strtod (snd (getNextToken strtod s)) = (Some Proto, s2) \<and>
         ParseExpression strtod n s2 = Some (None, s')"
  then show "ParseDefinition strtod n s = Some (None, s')"
    by (simp add: ParseDefinition_def)
next
  fix s' assume "ParseExpression strtod n s = Some (None, s')"
  then show "ParseTopLevelExpr strtod n s = Some (None, s')"
    by (simp add: ParseTopLevelExpr_def)
next
  fix r s' assume "ParseExpression strtod n s = Some (r, s')"
  then show "if r = None then \<exists>m. stderr s' = stderr s @ [m] else stderr s' = stderr s"
    by (rule ParseExpression_stderr)
next
  show "\<exists>s'. ParseExpression strtod (Suc (Suc (Suc (Suc (Suc (Suc n))))))
            (main_start strtod zero ''foo(1 2)'') = Some (None, s') \<and>
         stderr s' = [''Error: Expected ')' or ',' in argument list\<newline>''] \<and>
         CurTok s' = NumberToken \<and> NumVal s' = strtod ''2''"
    by (simp add: main_start_def main_table_def statics_def prompt_def parse_eval)
qed


theorem C4_failure_propagates_witness:
  "ParsePrimary (\<lambda>x. x) (Suc 0) (main_start (\<lambda>x. x) [] '')'') =
     Some (None, (main_start (\<lambda>x. x) [] '')'')
       \<lparr>stderr := [''Error: unknown token when expecting an expression\<newline>'']\<rparr>) \<and>
   (\<exists>s2. ParseExpression (\<lambda>x. x) 3 (snd (getNextToken (\<lambda>x. x) (main_start (\<lambda>x. x) [] ''(1 2''))) =
           Some (Some (NumberExprAST ''1''), s2) \<and>
         ParseParenExpr (\<lambda>x. x) (Suc 3) (main_start (\<lambda>x. x) [] ''(1 2'') =
           Some (None, s2\<lparr>stderr := [''Error: expected ')'' @ [CHR 0x27] @ ''\<newline>'']\<rparr>)) \<and>
   (\<exists>s1. ParseExpression (\<lambda>x. x) 3
           (snd (getNextToken (\<lambda>x. x) (snd (getNextToken (\<lambda>x. x) (main_start (\<lambda>x. x) [] ''foo(1 2)''))))) =
           Some (Some (NumberExprAST ''1''), s1) \<and>
         ParseIdentifierExpr_args (\<lambda>x. x) (Suc 3) []
           (snd (getNextToken (\<lambda>x. x) (snd (getNextToken (\<lambda>x. x) (main_start (\<lambda>x. x) [] ''foo(1 2)''))))) =
           Some (None, s1\<lparr>stderr := [''Error: Expected ')' or ',' in argument list\<newline>'']\<rparr>)) \<and>
   (\<exists>s'. ParseExpression (\<lambda>x. x) 2 (snd (getNextToken (\<lambda>x. x) (main_start (\<lambda>x. x) [] ''()''))) =
           Some (None, s') \<and>
         ParseParenExpr (\<lambda>x. x) (Suc 2) (main_start (\<lambda>x. x) [] ''()'') = Some (None, s') \<and>
         ParsePrimary (\<lambda>x. x) (Suc (Suc 2)) (main_start (\<lambda>x. x) [] ''()'') = Some (None, s')) \<and>
   (\<exists>s'. ParseExpression (\<lambda>x. x) 2 (main_start (\<lambda>x. x) [] '')'') = Some (None, s') \<and>
         ParseIdentifierExpr_args (\<lambda>x. x) (Suc 2) [] (main_start (\<lambda>x. x) [] '')'') = Some (None, s') \<and>
         ParseTopLevelExpr (\<lambda>x. x) 2 (main_start (\<lambda>x. x) [] '')'') = Some (None, s') \<and>
         (\<exists>m. stderr s' = stderr (main_start (\<lambda>x. x) [] '')'') @ [m]) \<and>
         stderr s' = [''Error: unknown token when expecting an expression\<newline>'']) \<and>
   (\<exists>s'. ParseIdentifierExpr_args (\<lambda>x. x) 3 []
           (snd (getNextToken (\<lambda>x. x) (snd (getNextToken (\<lambda>x. x) (main_start (\<lambda>x. x) [] ''f(,''))))) =
           Some (None, s') \<and>
         ParseIdentifierExpr (\<lambda>x. x) (Suc 3) (main_start (\<lambda>x. x) [] ''f(,'') = Some (None, s') \<and>
         ParsePrimary (\<lambda>x. x) (Suc (Suc 3)) (main_start (\<lambda>x. x) [] ''f(,'') = Some (None, s')) \<and>
   (\<exists>s'. ParsePrimary (\<lambda>x. x) 1 (main_start (\<lambda>x. x) [] '')'') = Some (None, s') \<and>
         ParseExpression (\<lambda>x. x) (Suc 1) (main_start (\<lambda>x. x) [] '')'') = Some (None, s')) \<and>
   (\<exists>s'. ParseBinOpRHS (\<lambda>x. x) (Suc 1) 0 (NumberExprAST ''1'')
           (snd (getNextToken (\<lambda>x. x) (main_start (\<lambda>x. x) [] ''1+)''))) = Some (None, s') \<and>
         ParseExpression (\<lambda>x. x) (Suc 2) (main_start (\<lambda>x. x) [] ''1+)'') = Some (None, s')) \<and>
   (\<exists>s'. ParseBinOpRHS (\<lambda>x. x) (Suc 2) 0 (NumberExprAST ''1'')
           (snd (getNextToken (\<lambda>x. x) (main_start (\<lambda>x. x) [] ''1+2*)''))) = Some (None, s')) \<and>
   (\<exists>s'. ParseDefinition (\<lambda>x. x) 0 (main_start (\<lambda>x. x) [] ''def 1'') = Some (None, s') \<and>
         ParseExtern (\<lambda>x. x) (main_start (\<lambda>x. x) [] ''def 1'') = (None, s') \<and>
         stderr s' = [''Error: Expected function name in prototype\<newline>'']) \<and>
   (\<exists>s'. ParseDefinition (\<lambda>x. x) 2 (main_start (\<lambda>x. x) [] ''def f() )'') = Some (None, s') \<and>
         stderr s' = [''Error: unknown token when expecting an expression\<newline>''])"
proof -
  let ?f = "\<lambda>x :: string. x"
  note T0 = C4_failure_propagates [where strtod = ?f]
  note o_primary = T0 [THEN conjunct1, rule_format]
  note o_paren = T0 [THEN conjunct2, THEN conjunct1, rule_format]
  note o_args = T0 [THEN conjunct2, THEN conjunct2, THEN conjunct1, rule_format]
  note T = T0 [THEN conjunct2, THEN conjunct2, THEN conjunct2]
  note c_paren = T [THEN conjunct1, rule_format]
  note c_args = T [THEN conjunct2, THEN conjunct1, rule_format]
  note c_ident = T [THEN conjunct2, THEN conjunct2, THEN conjunct1, rule_format]
  note c_primary = T [THEN conjunct2, THEN conjunct2, THEN conjunct2, THEN conjunct1, rule_format]
  note c_binop = T [THEN conjunct2, THEN conjunct2, THEN conjunct2, THEN conjunct2, THEN conjunct1,
      rule_format]
  note c_binop_rec = T [THEN conjunct2, THEN conjunct2, THEN conjunct2, THEN conjunct2, THEN conjunct2,
      THEN conjunct1, rule_format]
  note c_expr = T [THEN conjunct2, THEN conjunct2, THEN conjunct2, THEN conjunct2, THEN conjunct2,
      THEN conjunct2, THEN conjunct1, rule_format]
  note c_expr_rhs = T [THEN conjunct2, THEN conjunct2, THEN conjunct2, THEN conjunct2, THEN conjunct2,
      THEN conjunct2, THEN conjunct2, THEN conjunct1, rule_format]
  note c_proto = T [THEN conjunct2, THEN conjunct2, THEN conjunct2, THEN conjunct2, THEN conjunct2,
      THEN conjunct2, THEN conjunct2, THEN conjunct2, THEN conjunct1, rule_format]
  note c_body = T [THEN conjunct2, THEN conjunct2, THEN conjunct2, THEN conjunct2, THEN conjunct2,
      THEN conjunct2, THEN conjunct2, THEN conjunct2, THEN conjunct2, THEN conjunct1, rule_format]
  note c_top = T [THEN conjunct2, THEN conjunct2, THEN conjunct2, THEN conjunct2, THEN conjunct2,
      THEN conjunct2, THEN conjunct2, THEN conjunct2, THEN conjunct2, THEN conjunct2, THEN conjunct1,
      rule_format]
  note c_stderr = T [THEN conjunct2, THEN conjunct2, THEN conjunct2, THEN conjunct2, THEN conjunct2,
      THEN conjunct2, THEN conjunct2, THEN conjunct2, THEN conjunct2, THEN conjunct2, THEN conjunct2,
      THEN conjunct1, rule_format]
  note ev = main_start_def main_table_def statics_def prompt_def parse_eval numeral_eq_Suc
  define sP where "sP = main_start ?f [] ''()''"
  define sC where "sC = main_start ?f [] '')''"
  define sI where "sI = main_start ?f [] ''f(,''"
  define sB where "sB = main_start ?f [] ''1+)''"
  define sR where "sR = main_start ?f [] ''1+2*)''"
  define sD where "sD = main_start ?f [] ''def 1''"
  define sF where "sF = main_start ?f [] ''def f() )''"

  obtain p' where p0: "ParseExpression ?f 2 (snd (getNextToken ?f sP)) = Some (None, p')"
    by (simp add: sP_def ev)
  have p1: "ParseParenExpr ?f (Suc 2) sP = Some (None, p')"
    using p0 by (rule c_paren)
  have pt: "CurTok sP = of_char CHR ''(''" by (simp add: sP_def ev)
  have p2: "ParsePrimary ?f (Suc (Suc 2)) sP = Some (None, p')"
    using pt p1 by (intro c_primary) simp

  obtain c' where c0: "ParseExpression ?f 2 sC = Some (None, c')"
      and c4: "stderr c' = [''Error: unknown token when expecting an expression\<newline>'']"
    by (simp add: sC_def ev)
  have c1: "ParseIdentifierExpr_args ?f (Suc 2) [] sC = Some (None, c')"
    using c0 by (rule c_args)
  have c2: "ParseTopLevelExpr ?f 2 sC = Some (None, c')"
    using c0 by (rule c_top)
  obtain m where c3: "stderr c' = stderr sC @ [m]"
    using c_stderr [OF c0] by auto

  obtain i' where i0: "ParseIdentifierExpr_args ?f 3 [] (snd (getNextToken ?f (snd (getNextToken ?f sI)))) =
        Some (None, i')"
      and i0a: "CurTok (snd (getNextToken ?f sI)) = of_char CHR ''(''"
      and i0b: "CurTok (snd (getNextToken ?f (snd (getNextToken ?f sI)))) \<noteq> of_char CHR '')''"
      and i0c: "CurTok sI = IdentifierToken"
    by (simp add: sI_def ev)
  have i1: "ParseIdentifierExpr ?f (Suc 3) sI = Some (None, i')"
    using i0 i0a i0b by (intro c_ident) simp
  have i2: "ParsePrimary ?f (Suc (Suc 3)) sI = Some (None, i')"
    using i0c i1 by (intro c_primary) simp

  obtain e' where e0: "ParsePrimary ?f 1 sC = Some (None, e')"
    by (simp add: sC_def ev)
  have e1: "ParseExpression ?f (Suc 1) sC = Some (None, e')"
    using e0 by (rule c_expr)

  define sB1 where "sB1 = snd (getNextToken ?f sB)"
  obtain b' where b0: "ParsePrimary ?f 1 (snd (getNextToken ?f (snd (GetTokPrecedence sB1)))) = Some (None, b')"
      and b0a: "\<not> fst (GetTokPrecedence sB1) < 0"
      and b0b: "ParsePrimary ?f 2 sB = Some (Some (NumberExprAST ''1''), sB1)"
    by (simp add: sB1_def sB_def ev)
  have b1: "ParseBinOpRHS ?f (Suc 1) 0 (NumberExprAST ''1'') sB1 = Some (None, b')"
    using b0a b0 by (intro c_binop) simp
  have b2: "ParseExpression ?f (Suc 2) sB = Some (None, b')"
    using b0b b1 by (intro c_expr_rhs [where L = "NumberExprAST ''1''" and ?s1.0 = sB1]) (simp add: numeral_eq_Suc)

  define sR1 where "sR1 = snd (getNextToken ?f sR)"
  obtain r3 r' where r0: "ParsePrimary ?f 2 (snd (getNextToken ?f (snd (GetTokPrecedence sR1)))) =
        Some (Some (NumberExprAST ''2''), r3)"
      and r0a: "\<not> fst (GetTokPrecedence sR1) < 0"
      and r0b: "fst (GetTokPrecedence sR1) < fst (GetTokPrecedence r3)"
      and r0c: "ParseBinOpRHS ?f 2 (fst (GetTokPrecedence sR1) + 1) (NumberExprAST ''2'')
          (snd (GetTokPrecedence r3)) = Some (None, r')"
    by (simp add: sR1_def sR_def ev)
  have r1: "ParseBinOpRHS ?f (Suc 2) 0 (NumberExprAST ''1'') sR1 = Some (None, r')"
    using r0a r0 r0b r0c by (intro c_binop_rec [where RHS = "NumberExprAST ''2''" and ?s3.0 = r3]) simp

  obtain d' where d0: "ParsePrototype ?f (snd (getNextToken ?f sD)) = (None, d')"
      and d0e: "stderr d' = [''Error: Expected function name in prototype\<newline>'']"
    by (simp add: sD_def ev)
  have d1: "ParseDefinition ?f 0 sD = Some (None, d')" "ParseExtern ?f sD = (None, d')"
    using c_proto [OF d0] by simp_all

  obtain fp f2 f' where f0: "ParsePrototype ?f (snd (getNextToken ?f sF)) = (Some fp, f2)"
      and f0a: "ParseExpression ?f 2 f2 = Some (None, f')"
      and f0e: "stderr f' = [''Error: unknown token when expecting an expression\<newline>'']"
    by (simp add: sF_def ev)
  have f1: "ParseDefinition ?f 2 sF = Some (None, f')"
    using f0 f0a by (intro c_body [where Proto = fp and ?s2.0 = f2]) simp

  have u0: "CurTok sC \<noteq> IdentifierToken \<and> CurTok sC \<noteq> NumberToken \<and> CurTok sC \<noteq> of_char CHR ''(''"
    and u0e: "stderr sC = []"
    by (simp_all add: sC_def ev)
  have u1: "ParsePrimary ?f (Suc 0) sC =
      Some (None, sC\<lparr>stderr := stderr sC @ [''Error: unknown token when expecting an expression\<newline>'']\<rparr>)"
    using u0 by (rule o_primary)
  define sQ where "sQ = main_start ?f [] ''(1 2''"
  obtain q2 where q0: "ParseExpression ?f 3 (snd (getNextToken ?f sQ)) = Some (Some (NumberExprAST ''1''), q2)"
      and q0a: "CurTok q2 \<noteq> of_char CHR '')''" and q0e: "stderr q2 = []"
    by (simp add: sQ_def ev)
  have q1: "ParseParenExpr ?f (Suc 3) sQ =
      Some (None, q2\<lparr>stderr := stderr q2 @ [''Error: expected ')'' @ [CHR 0x27] @ ''\<newline>'']\<rparr>)"
    using q0 q0a by (intro o_paren) simp
  define sA where "sA = snd (getNextToken ?f (snd (getNextToken ?f (main_start ?f [] ''foo(1 2)''))))"
  obtain a1 where a0: "ParseExpression ?f 3 sA = Some (Some (NumberExprAST ''1''), a1)"
      and a0a: "CurTok a1 \<noteq> of_char CHR '')'' \<and> CurTok a1 \<noteq> of_char CHR '',''"
      and a0e: "stderr a1 = []"
    by (simp add: sA_def ev)
  have a2: "ParseIdentifierExpr_args ?f (Suc 3) [] sA =
      Some (None, a1\<lparr>stderr := stderr a1 @ [''Error: Expected ')' or ',' in argument list\<newline>'']\<rparr>)"
    using a0 a0a by (intro o_args) simp

  show ?thesis
    using u1 u0e q0 q1 q0e a0 a2 a0e p0 p1 p2 c0 c1 c2 c3 c4 i0 i1 i2 e0 e1 b1 b2 r1 d1 d0e f1 f0e
    by (simp add: sP_def [symmetric] sC_def [symmetric] sI_def [symmetric] sB_def [symmetric]
          sR_def [symmetric] sD_def [symmetric] sF_def [symmetric] sB1_def [symmetric]
          sQ_def [symmetric] sA_def [symmetric]
          sR1_def [symmetric])
qed


text \<open>
  C8. When the next token starts at a digit or a dot (after any white space), the lexer
  consumes the whole run of digits and dots that follows, and returns one
  \<open>NumberToken\<close> whose value is \<open>strtod\<close> of the text of the run. So \<open>3.14\<close>,
  \<open>.5\<close> and the malformed \<open>1.2.3\<close> are each one number token, carrying what
  \<open>strtod\<close> returns on that text, and the token after it is the end of the input.
\<close>

theorem C8_number_token:
  fixes strtod :: "string \<Rightarrow> 'd"
  shows
  "(\<forall>(s :: 'd state) l ws c cs rest.
      LastChar s = of_char l \<and> l # stdin s = ws @ c # cs @ rest \<and>
      (\<forall>x\<in>set ws. isspace (of_char x)) \<and>
      (\<forall>x\<in>set (c # cs). isdigit (of_char x) \<or> x = CHR ''.'') \<and>
      (rest = [] \<or> \<not> (isdigit (of_char (hd rest)) \<or> hd rest = CHR ''.'')) \<longrightarrow>
      gettok strtod s =
        (NumberToken,
         s\<lparr>stdin := tl rest, LastChar := peek rest, NumVal := strtod (c # cs)\<rparr>)) \<and>
   (\<forall>inp \<in> {''3.14'', ''.5'', ''1.2.3''}.
      let (t1, s1) = gettok strtod (statics zero inp);
          (t2, s2) = gettok strtod s1
      in t1 = NumberToken \<and> NumVal s1 = strtod inp \<and> t2 = EOFToken)"
proof (intro conjI allI impI ballI)
  fix s :: "'d state" and l ws c cs rest
  assume "LastChar s = of_char l \<and> l # stdin s = ws @ c # cs @ rest \<and>
      (\<forall>x\<in>set ws. isspace (of_char x)) \<and>
      (\<forall>x\<in>set (c # cs). isdigit (of_char x) \<or> x = CHR ''.'') \<and>
      (rest = [] \<or> \<not> (isdigit (of_char (hd rest)) \<or> hd rest = CHR ''.''))"
  then show "gettok strtod s =
        (NumberToken,
         s\<lparr>stdin := tl rest, LastChar := peek rest, NumVal := strtod (c # cs)\<rparr>)"
    using gettok_number_text [of s l ws c cs rest strtod] by simp
next
  fix inp :: string
  assume "inp \<in> {''3.14'', ''.5'', ''1.2.3''}"
  then consider "inp = ''3.14''" | "inp = ''.5''" | "inp = ''1.2.3''" by blast
  then show "let (t1, s1) = gettok strtod (statics zero inp);
          (t2, s2) = gettok strtod s1
      in t1 = NumberToken \<and> NumVal s1 = strtod inp \<and> t2 = EOFToken"
    by cases (simp_all add: statics_def lex_eval)
qed

theorem C8_number_token_witness:
  "gettok (\<lambda>x. x) (statics [] '' 42.5+x'') =
     (NumberToken,
      (statics [] '' 42.5+x'')\<lparr>stdin := ''x'', LastChar := of_char CHR ''+'', NumVal := ''42.5''\<rparr>)
   \<and> (let (t1, s1) = gettok (\<lambda>x. x) (statics [] ''1.2.3''); (t2, s2) = gettok (\<lambda>x. x) s1
      in t1 = NumberToken \<and> NumVal s1 = ''1.2.3'' \<and> t2 = EOFToken)"
proof -
  note gen = C8_number_token [where strtod = "\<lambda>x. x" and zero = "[]", THEN conjunct1, rule_format]
  note ex = C8_number_token [where strtod = "\<lambda>x. x" and zero = "[]", THEN conjunct2]
  have "gettok (\<lambda>x. x) (statics [] '' 42.5+x'') =
     (NumberToken,
      (statics [] '' 42.5+x'')\<lparr>stdin := tl ''+x'', LastChar := peek ''+x'', NumVal := CHR ''4'' # ''2.5''\<rparr>)"
    by (rule gen [where l = "CHR '' ''" and ws = "''  ''"])
       (simp add: statics_def isspace_def isdigit_def)
  moreover have "let (t1, s1) = gettok (\<lambda>x. x) (statics [] ''1.2.3''); (t2, s2) = gettok (\<lambda>x. x) s1
      in t1 = NumberToken \<and> NumVal s1 = ''1.2.3'' \<and> t2 = EOFToken"
    using ex by simp
  ultimately show ?thesis by (simp add: peek_def)
qed



text \<open>
  C6. When the next token starts at a letter (after any white space), the lexer consumes
  the letters and digits that follow and leaves the word in \<open>IdentifierStr\<close>. The
  token is \<open>DefToken\<close> for the word \<open>def\<close>, \<open>ExternToken\<close> for \<open>extern\<close>, and
  \<open>IdentifierToken\<close> for every other word and for no other: the two keywords are never
  returned as identifiers.
\<close>

theorem C6_keywords_and_identifiers:
  assumes "LastChar s = of_char l" and "l # stdin s = ws @ c # cs @ rest"
    and "\<forall>x\<in>set ws. isspace (of_char x)"
    and "isalpha (of_char c)" and "\<forall>x\<in>set cs. isalnum (of_char x)"
    and "rest = [] \<or> \<not> isalnum (of_char (hd rest))"
  shows "gettok strtod s =
     (if c # cs = ''def'' then DefToken
      else if c # cs = ''extern'' then ExternToken
      else IdentifierToken,
      s\<lparr>stdin := tl rest, LastChar := peek rest, IdentifierStr := c # cs\<rparr>)
    \<and> (fst (gettok strtod s) = IdentifierToken \<longleftrightarrow> c # cs \<noteq> ''def'' \<and> c # cs \<noteq> ''extern'')"
  using gettok_identifier_text [OF assms, of strtod] by simp

theorem C6_keywords_and_identifiers_witness:
  "gettok (\<lambda>x. x) (statics [] ''def'') =
     (DefToken, (statics [] ''def'')\<lparr>stdin := [], LastChar := EOF, IdentifierStr := ''def''\<rparr>)
   \<and> gettok (\<lambda>x. x) (statics [] ''extern'') =
     (ExternToken, (statics [] ''extern'')\<lparr>stdin := [], LastChar := EOF, IdentifierStr := ''extern''\<rparr>)
   \<and> gettok (\<lambda>x. x) (statics [] ''foo123 ='') =
     (IdentifierToken,
      (statics [] ''foo123 ='')\<lparr>stdin := ''='', LastChar := of_char CHR '' '', IdentifierStr := ''foo123''\<rparr>)"
proof -
  let ?f = "\<lambda>x :: string. x"
  have "gettok ?f (statics [] ''def'') =
     (DefToken, (statics [] ''def'')\<lparr>stdin := tl [], LastChar := peek [], IdentifierStr := CHR ''d'' # ''ef''\<rparr>)"
    using C6_keywords_and_identifiers [where s = "statics [] ''def''" and l = "CHR '' ''"
        and ws = "'' ''" and c = "CHR ''d''" and cs = "''ef''" and rest = "[]" and strtod = ?f]
    by (simp add: statics_def isspace_def isalpha_def isalnum_def isdigit_def)
  moreover have "gettok ?f (statics [] ''extern'') =
     (ExternToken, (statics [] ''extern'')\<lparr>stdin := tl [], LastChar := peek [],
        IdentifierStr := CHR ''e'' # ''xtern''\<rparr>)"
    using C6_keywords_and_identifiers [where s = "statics [] ''extern''" and l = "CHR '' ''"
        and ws = "'' ''" and c = "CHR ''e''" and cs = "''xtern''" and rest = "[]" and strtod = ?f]
    by (simp add: statics_def isspace_def isalpha_def isalnum_def isdigit_def)
  moreover have "gettok ?f (statics [] ''foo123 ='') =
     (IdentifierToken, (statics [] ''foo123 ='')\<lparr>stdin := tl '' ='', LastChar := peek '' ='',
        IdentifierStr := CHR ''f'' # ''oo123''\<rparr>)"
    using C6_keywords_and_identifiers [where s = "statics [] ''foo123 =''" and l = "CHR '' ''"
        and ws = "'' ''" and c = "CHR ''f''" and cs = "''oo123''" and rest = "'' =''" and strtod = ?f]
    by (simp add: statics_def isspace_def isalpha_def isalnum_def isdigit_def)
  ultimately show ?thesis by (simp add: peek_def)
qed


text \<open>
  C7. A \<open>#\<close> starts a comment. The lexer drops the characters up to the end of the
  line or of the input; at the end of the input it returns \<open>EOFToken\<close>, and otherwise
  the token it returns is the one found from the line end on, so the text of the comment
  yields no token. The input \<open>1 # comment\<close>, a new line and \<open>2\<close> is lexed as the
  number 1, the number 2 and the end of the input.
\<close>

theorem C7_comments:
  fixes strtod :: "string \<Rightarrow> 'd"
  shows
  "(\<forall>(s :: 'd state) l ws body rest.
      LastChar s = of_char l \<and> l # stdin s = ws @ CHR ''#'' # body @ rest \<and>
      (\<forall>x\<in>set ws. isspace (of_char x)) \<and>
      (\<forall>x\<in>set body. of_char x \<noteq> (10::int) \<and> of_char x \<noteq> (13::int)) \<and>
      (rest = [] \<or> of_char (hd rest) = (10::int) \<or> of_char (hd rest) = (13::int)) \<longrightarrow>
      gettok strtod s =
        (if rest = [] then (EOFToken, s\<lparr>stdin := [], LastChar := EOF\<rparr>)
         else gettok strtod (s\<lparr>stdin := tl rest, LastChar := of_char (hd rest)\<rparr>))) \<and>
   (let (t1, s1) = gettok strtod (statics zero ''1 # comment\<newline>2'');
        (t2, s2) = gettok strtod s1;
        (t3, s3) = gettok strtod s2
    in t1 = NumberToken \<and> NumVal s1 = strtod ''1'' \<and>
       t2 = NumberToken \<and> NumVal s2 = strtod ''2'' \<and>
       t3 = EOFToken)"
proof (intro conjI allI impI)
  fix s :: "'d state" and l ws body rest
  assume "LastChar s = of_char l \<and> l # stdin s = ws @ CHR ''#'' # body @ rest \<and>
      (\<forall>x\<in>set ws. isspace (of_char x)) \<and>
      (\<forall>x\<in>set body. of_char x \<noteq> (10::int) \<and> of_char x \<noteq> (13::int)) \<and>
      (rest = [] \<or> of_char (hd rest) = (10::int) \<or> of_char (hd rest) = (13::int))"
  then show "gettok strtod s =
        (if rest = [] then (EOFToken, s\<lparr>stdin := [], LastChar := EOF\<rparr>)
         else gettok strtod (s\<lparr>stdin := tl rest, LastChar := of_char (hd rest)\<rparr>))"
    using gettok_comment_text [of s l ws body rest strtod] by blast
next
  show "let (t1, s1) = gettok strtod (statics zero ''1 # comment\<newline>2'');
        (t2, s2) = gettok strtod s1;
        (t3, s3) = gettok strtod s2
    in t1 = NumberToken \<and> NumVal s1 = strtod ''1'' \<and>
       t2 = NumberToken \<and> NumVal s2 = strtod ''2'' \<and>
       t3 = EOFToken"
    by (simp add: statics_def lex_eval)
qed

theorem C7_comments_witness:
  "gettok (\<lambda>x. x) ((statics [] ''# a comment'')\<lparr>LastChar := of_char CHR '' ''\<rparr>) =
     (EOFToken, (statics [] ''# a comment'')\<lparr>stdin := [], LastChar := EOF\<rparr>)
   \<and> gettok (\<lambda>x. x) (statics [] ''#x\<newline>7'') =
       gettok (\<lambda>x. x) ((statics [] ''#x\<newline>7'')\<lparr>stdin := ''7'', LastChar := 10\<rparr>)"
proof -
  let ?f = "\<lambda>x :: string. x"
  note gen = C7_comments [where strtod = ?f and zero = "[]", THEN conjunct1, rule_format]
  have "gettok ?f (statics [] ''# a comment'') =
     (if ([] :: string) = [] then (EOFToken, (statics [] ''# a comment'')\<lparr>stdin := [], LastChar := EOF\<rparr>)
      else gettok ?f ((statics [] ''# a comment'')\<lparr>stdin := tl [], LastChar := of_char (hd [])\<rparr>))"
    by (rule gen [where l = "CHR '' ''" and ws = "'' ''" and body = "'' a comment''"])
       (simp add: statics_def isspace_def)
  moreover have "gettok ?f (statics [] ''#x\<newline>7'') =
     (if ''\<newline>7'' = [] then (EOFToken, (statics [] ''#x\<newline>7'')\<lparr>stdin := [], LastChar := EOF\<rparr>)
      else gettok ?f ((statics [] ''#x\<newline>7'')\<lparr>stdin := tl ''\<newline>7'', LastChar := of_char (hd ''\<newline>7'')\<rparr>))"
    by (rule gen [where l = "CHR '' ''" and ws = "'' ''" and body = "''x''"])
       (simp add: statics_def isspace_def)
  ultimately show ?thesis by (simp add: statics_def)
qed


text \<open>
  C9. \<open>ParseTopLevelExpr\<close> wraps the expression it parsed in a function whose
  prototype has the name \<open>__anon_expr\<close> and no parameters: its result is that of
  \<open>ParseExpression\<close>, in the same state, with the tree wrapped when there is one
  and the failure passed on when there is none, and it returns under every bound that is
  large enough. So \<open>x+1\<close> yields the anonymous function whose body is the sum. The
  lexer cannot produce that name: whenever \<open>gettok\<close> returns \<open>IdentifierToken\<close>,
  the word in \<open>IdentifierStr\<close> starts with a letter, and \<open>__anon_expr\<close> starts
  with an underscore. This needs \<open>LastChar\<close> to hold a value that \<open>getchar\<close>
  returns, which is so at the start and remains so after every call of \<open>gettok\<close>.
\<close>

theorem C9_anonymous_name:
  "ParseTopLevelExpr strtod n s =
     map_option (\<lambda>(r, s'). (map_option (FunctionAST (PrototypeAST ''__anon_expr'' [])) r, s'))
       (ParseExpression strtod n s) \<and>
   (\<forall>E s'. ParseExpression strtod n s = Some (Some E, s') \<longrightarrow>
      ParseTopLevelExpr strtod n s =
        Some (Some (FunctionAST (PrototypeAST ''__anon_expr'' []) E), s')) \<and>
   (\<forall>s'. ParseExpression strtod n s = Some (None, s') \<longrightarrow>
      ParseTopLevelExpr strtod n s = Some (None, s')) \<and>
   (\<forall>F s'. ParseTopLevelExpr strtod n s = Some (Some F, s') \<longrightarrow>
      (\<exists>E. F = FunctionAST (PrototypeAST ''__anon_expr'' []) E \<and>
           ParseExpression strtod n s = Some (Some E, s'))) \<and>
   (\<exists>k. ParseTopLevelExpr strtod k s \<noteq> None) \<and>
   map_option fst (ParseTopLevelExpr strtod (Suc (Suc (Suc n))) (main_start strtod zero ''x+1'')) =
     Some (Some (FunctionAST (PrototypeAST ''__anon_expr'' [])
       (BinaryExprAST CHR ''+'' (VariableExprAST ''x'') (NumberExprAST (strtod ''1''))))) \<and>
   (- 1 \<le> LastChar s \<longrightarrow>
      - 1 \<le> LastChar (snd (gettok strtod s)) \<and>
      (fst (gettok strtod s) = IdentifierToken \<longrightarrow>
         IdentifierStr (snd (gettok strtod s)) \<noteq> ''__anon_expr'' \<and>
         IdentifierStr (snd (gettok strtod s)) \<noteq> [] \<and>
         isalpha (of_char (hd (IdentifierStr (snd (gettok strtod s)))))))"
proof (intro conjI allI impI)
  show "ParseTopLevelExpr strtod n s =
     map_option (\<lambda>(r, s'). (map_option (FunctionAST (PrototypeAST ''__anon_expr'' [])) r, s'))
       (ParseExpression strtod n s)"
    by (simp add: ParseTopLevelExpr_def split: option.splits prod.splits)
next
  fix E s'
  assume "ParseExpression strtod n s = Some (Some E, s')"
  then show "ParseTopLevelExpr strtod n s =
        Some (Some (FunctionAST (PrototypeAST ''__anon_expr'' []) E), s')"
    by (simp add: ParseTopLevelExpr_def)
next
  fix s'
  assume "ParseExpression strtod n s = Some (None, s')"
  then show "ParseTopLevelExpr strtod n s = Some (None, s')"
    by (simp add: ParseTopLevelExpr_def)
next
  fix F s'
  assume "ParseTopLevelExpr strtod n s = Some (Some F, s')"
  then show "\<exists>E. F = FunctionAST (PrototypeAST ''__anon_expr'' []) E \<and>
           ParseExpression strtod n s = Some (Some E, s')"
    by (auto simp: ParseTopLevelExpr_def split: option.splits prod.splits)
next
  obtain k where k: "ParseExpression strtod k s \<noteq> None" using parser_total by blast
  then have "ParseTopLevelExpr strtod k s \<noteq> None"
    by (auto simp: ParseTopLevelExpr_def split: option.splits prod.splits)
  then show "\<exists>k. ParseTopLevelExpr strtod k s \<noteq> None" ..
next
  show "map_option fst (ParseTopLevelExpr strtod (Suc (Suc (Suc n))) (main_start strtod zero ''x+1'')) =
     Some (Some (FunctionAST (PrototypeAST ''__anon_expr'' [])
       (BinaryExprAST CHR ''+'' (VariableExprAST ''x'') (NumberExprAST (strtod ''1'')))))"
    by (simp add: main_start_def main_table_def statics_def prompt_def parse_eval)
next
  assume "- 1 \<le> LastChar s"
  then show "- 1 \<le> LastChar (snd (gettok strtod s))"
    using gettok_IdentifierToken [of s strtod] by simp
next
  assume ge: "- 1 \<le> LastChar s" and tok: "fst (gettok strtod s) = IdentifierToken"
  then obtain c cs where id: "IdentifierStr (snd (gettok strtod s)) = c # cs" "isalpha (of_char c)"
    using gettok_IdentifierToken [of s strtod] by auto
  then show "IdentifierStr (snd (gettok strtod s)) \<noteq> []"
    and "isalpha (of_char (hd (IdentifierStr (snd (gettok strtod s)))))" by simp_all
  show "IdentifierStr (snd (gettok strtod s)) \<noteq> ''__anon_expr''"
  proof
    assume "IdentifierStr (snd (gettok strtod s)) = ''__anon_expr''"
    then have "c = CHR ''_''" using id(1) by simp
    then show False using id(2) by (simp add: isalpha_def)
  qed
qed

theorem C9_anonymous_name_witness:
  "(let s = main_start (\<lambda>x. x) [] ''x+1''
    in map_option fst (ParseExpression (\<lambda>x. x) 3 s) =
         Some (Some (BinaryExprAST CHR ''+'' (VariableExprAST ''x'') (NumberExprAST ''1''))) \<and>
       map_option fst (ParseTopLevelExpr (\<lambda>x. x) 3 s) =
         Some (Some (FunctionAST (PrototypeAST ''__anon_expr'' [])
           (BinaryExprAST CHR ''+'' (VariableExprAST ''x'') (NumberExprAST ''1''))))) \<and>
   (let s = main_start (\<lambda>x. x) [] '')''
    in map_option fst (ParseExpression (\<lambda>x. x) 3 s) = Some None \<and>
       map_option fst (ParseTopLevelExpr (\<lambda>x. x) 3 s) = Some None) \<and>
   (- 1 :: int) \<le> LastChar (statics ([] :: string) ''anon __anon_expr'')
   \<and> fst (gettok (\<lambda>x. x) (statics [] ''anon __anon_expr'')) = IdentifierToken
   \<and> IdentifierStr (snd (gettok (\<lambda>x. x) (statics [] ''anon __anon_expr''))) \<noteq> ''__anon_expr''
   \<and> fst (gettok (\<lambda>x. x) (statics [] ''__anon_expr'')) = of_char CHR ''_''"
proof -
  let ?f = "\<lambda>x :: string. x"
  define s where "s = main_start ?f [] ''x+1''"
  define t where "t = main_start ?f [] '')''"
  define u where "u = statics ([] :: string) ''anon __anon_expr''"
  obtain s' where e1: "ParseExpression ?f 3 s =
      Some (Some (BinaryExprAST CHR ''+'' (VariableExprAST ''x'') (NumberExprAST ''1'')), s')"
    by (simp add: s_def main_start_def main_table_def statics_def prompt_def lex_eval
          GetTokPrecedence_def ParseNumberExpr_def ParseIdentifierExpr.simps ParsePrimary.simps
          ParseBinOpRHS.simps ParseExpression.simps numeral_eq_Suc)
  obtain t' where e2: "ParseExpression ?f 3 t = Some (None, t')"
    by (simp add: t_def main_start_def main_table_def statics_def prompt_def lex_eval
          GetTokPrecedence_def LogError_def ParsePrimary.simps
          ParseBinOpRHS.simps ParseExpression.simps numeral_eq_Suc)
  have w1: "ParseTopLevelExpr ?f 3 s =
      Some (Some (FunctionAST (PrototypeAST ''__anon_expr'' [])
        (BinaryExprAST CHR ''+'' (VariableExprAST ''x'') (NumberExprAST ''1''))), s')"
    using C9_anonymous_name [where strtod = ?f and n = 3 and s = s] e1 by blast
  have w2: "ParseTopLevelExpr ?f 3 t = Some (None, t')"
    using C9_anonymous_name [where strtod = ?f and n = 3 and s = t] e2 by blast
  have u1: "- 1 \<le> LastChar u" and u2: "fst (gettok ?f u) = IdentifierToken"
    by (simp_all add: u_def statics_def lex_eval)
  have w3: "IdentifierStr (snd (gettok ?f u)) \<noteq> ''__anon_expr''"
    using C9_anonymous_name [where strtod = ?f and n = 0 and s = u] u1 u2 by blast
  have w4: "fst (gettok ?f (statics [] ''__anon_expr'')) = of_char CHR ''_''"
    by (simp add: statics_def lex_eval)
  show ?thesis
    using e1 w1 e2 w2 u1 u2 w3 w4
    by (simp add: s_def [symmetric] t_def [symmetric] u_def [symmetric])
qed







text \<open>
  C10. A lookup of the precedence of an ASCII token that has no entry in the table adds
  the entry 0 for it: the table changes while the parser only asks for precedences. The
  answer is \<open>-1\<close> all the same, and it is \<open>-1\<close> again when the entry 0 is there. The
  result of \<open>ParseExpression\<close> does not depend on such entries: a run from a table in
  which every absent key holds 0 goes through the same steps, and adding an entry 0 for
  an absent key leaves the tree that is returned as it was.
\<close>

theorem C10_lookup_inserts_zero:
  "(isascii (CurTok s) \<and> BinopPrecedence s (char_of (CurTok s)) = None \<longrightarrow>
      GetTokPrecedence s =
        (- 1, s\<lparr>BinopPrecedence := (BinopPrecedence s)(char_of (CurTok s) \<mapsto> 0)\<rparr>)) \<and>
   (isascii (CurTok s) \<and> BinopPrecedence s (char_of (CurTok s)) = Some 0 \<longrightarrow>
      GetTokPrecedence s = (- 1, s)) \<and>
   ParseExpression strtod n (with_defaults s) =
     map_option (apsnd with_defaults) (ParseExpression strtod n s) \<and>
   (BinopPrecedence s k = None \<longrightarrow>
      map_option fst (ParseExpression strtod n (s\<lparr>BinopPrecedence := (BinopPrecedence s)(k \<mapsto> 0)\<rparr>)) =
      map_option fst (ParseExpression strtod n s))"
proof (intro conjI impI)
  assume "isascii (CurTok s) \<and> BinopPrecedence s (char_of (CurTok s)) = None"
  then show "GetTokPrecedence s =
        (- 1, s\<lparr>BinopPrecedence := (BinopPrecedence s)(char_of (CurTok s) \<mapsto> 0)\<rparr>)"
    by (simp add: GetTokPrecedence_def)
next
  assume "isascii (CurTok s) \<and> BinopPrecedence s (char_of (CurTok s)) = Some 0"
  then show "GetTokPrecedence s = (- 1, s)"
    by (simp add: GetTokPrecedence_def)
next
  show "ParseExpression strtod n (with_defaults s) =
     map_option (apsnd with_defaults) (ParseExpression strtod n s)"
    by (rule ParseExpression_with_defaults)
next
  assume k: "BinopPrecedence s k = None"
  let ?t = "s\<lparr>BinopPrecedence := (BinopPrecedence s)(k \<mapsto> 0)\<rparr>"
  have "map_option (apsnd with_defaults) (ParseExpression strtod n ?t) =
      map_option (apsnd with_defaults) (ParseExpression strtod n s)"
    using ParseExpression_with_defaults [of strtod n ?t] ParseExpression_with_defaults [of strtod n s]
      with_defaults_insert_zero [OF k] by simp
  then have "map_option fst (map_option (apsnd with_defaults) (ParseExpression strtod n ?t)) =
      map_option fst (map_option (apsnd with_defaults) (ParseExpression strtod n s))"
    by simp
  then show "map_option fst (ParseExpression strtod n ?t) = map_option fst (ParseExpression strtod n s)"
    by (simp add: option.map_comp comp_def apsnd_fst_snd)
qed

theorem C10_lookup_inserts_zero_witness:
  "(let s = snd (getNextToken (\<lambda>x. x) (main_table (statics [] '')'')))
    in isascii (CurTok s) \<and> BinopPrecedence s (char_of (CurTok s)) = None \<and>
       fst (GetTokPrecedence s) = - 1 \<and>
       BinopPrecedence (snd (GetTokPrecedence s)) CHR '')'' = Some 0 \<and>
       GetTokPrecedence (snd (GetTokPrecedence s)) = (- 1, snd (GetTokPrecedence s))) \<and>
   (let s = snd (getNextToken (\<lambda>x. x) (main_table (statics [] ''1)'')))
    in BinopPrecedence s CHR '')'' = None \<and>
       map_option (\<lambda>(r, s'). (r, BinopPrecedence s' CHR '')'')) (ParseExpression (\<lambda>x. x) 3 s) =
         Some (Some (NumberExprAST ''1''), Some 0) \<and>
       map_option fst (ParseExpression (\<lambda>x. x) 3
          (s\<lparr>BinopPrecedence := (BinopPrecedence s)(CHR '')'' \<mapsto> 0)\<rparr>)) =
         Some (Some (NumberExprAST ''1'')))"
proof -
  let ?f = "\<lambda>x :: string. x"
  define s where "s = snd (getNextToken ?f (main_table (statics [] '')'')))"
  define t where "t = snd (getNextToken ?f (main_table (statics [] ''1)'')))"
  have s1: "isascii (CurTok s)" "BinopPrecedence s (char_of (CurTok s)) = None"
    "char_of (CurTok s) = CHR '')''"
    by (simp_all add: s_def main_table_def statics_def lex_eval)
  have g: "GetTokPrecedence s = (- 1, s\<lparr>BinopPrecedence := (BinopPrecedence s)(CHR '')'' \<mapsto> 0)\<rparr>)"
    using C10_lookup_inserts_zero [where s = s and strtod = ?f and n = 0 and k = "CHR '')''"] s1
    by simp
  have g2: "GetTokPrecedence (snd (GetTokPrecedence s)) = (- 1, snd (GetTokPrecedence s))"
    using C10_lookup_inserts_zero [where s = "snd (GetTokPrecedence s)" and strtod = ?f
        and n = 0 and k = "CHR '')''"] s1 g
    by simp
  have t1: "BinopPrecedence t CHR '')'' = None"
    by (simp add: t_def main_table_def statics_def lex_eval)
  have t2: "map_option (\<lambda>(r, s'). (r, BinopPrecedence s' CHR '')'')) (ParseExpression ?f 3 t) =
         Some (Some (NumberExprAST ''1''), Some 0)"
    by (simp add: t_def main_table_def statics_def parse_eval numeral_eq_Suc)
  then have "map_option fst (ParseExpression ?f 3 t) = Some (Some (NumberExprAST ''1''))"
    by (auto split: option.splits)
  then have t3: "map_option fst (ParseExpression ?f 3
          (t\<lparr>BinopPrecedence := (BinopPrecedence t)(CHR '')'' \<mapsto> 0)\<rparr>)) =
         Some (Some (NumberExprAST ''1''))"
    using C10_lookup_inserts_zero [where s = t and strtod = ?f and n = 3 and k = "CHR '')''"] t1
    by simp
  show ?thesis
    using s1 g g2 t1 t2 t3 by (simp add: s_def [symmetric] t_def [symmetric])
qed

end
